theory Spec2Isabelle
  imports Complex_Main "HOL-Library.Sublist"
begin

section \<open>Python strings\<close>

text \<open>
  A Python \<^verbatim>\<open>str\<close> is a sequence of Unicode code points, so a string is a list of
  natural numbers and \<open>length\<close> counts what Python's \<^verbatim>\<open>len\<close> counts. String literals
  of the source are written \<open>str ''...''\<close>.

  Whitespace (\<^verbatim>\<open>str.strip\<close>, \<^verbatim>\<open>\s\<close>) is Python's full Unicode table. Case mapping
  (\<^verbatim>\<open>lower\<close>, \<^verbatim>\<open>upper\<close>) and the word class \<^verbatim>\<open>\w\<close> are the ASCII ones; Python's tables for
  code points from 128 on are not part of this development, and such code points are
  taken as caseless and outside \<^verbatim>\<open>\w\<close>. The predicate \<open>is_ascii\<close> marks the strings on
  which these three agree with Python by construction.
\<close>

type_synonym pystr = "nat list"

definition str :: "string \<Rightarrow> pystr" where
  "str cs = map of_char cs"


definition isspace :: "nat \<Rightarrow> bool" where
  "isspace c \<longleftrightarrow>
     (9 \<le> c \<and> c \<le> 13) \<or> (28 \<le> c \<and> c \<le> 32) \<or> c = 133 \<or> c = 160 \<or> c = 5760 \<or>
     (8192 \<le> c \<and> c \<le> 8202) \<or> c = 8232 \<or> c = 8233 \<or> c = 8239 \<or> c = 8287 \<or> c = 12288"

definition is_digit :: "nat \<Rightarrow> bool" where
  "is_digit c \<longleftrightarrow> 48 \<le> c \<and> c \<le> 57"

definition is_alnum :: "nat \<Rightarrow> bool" where
  "is_alnum c \<longleftrightarrow> is_digit c \<or> (65 \<le> c \<and> c \<le> 90) \<or> (97 \<le> c \<and> c \<le> 122)"

definition is_word :: "nat \<Rightarrow> bool" where
  "is_word c \<longleftrightarrow> is_alnum c \<or> c = 95"

definition lower_cp :: "nat \<Rightarrow> nat" where
  "lower_cp c = (if 65 \<le> c \<and> c \<le> 90 then c + 32 else c)"

definition upper_cp :: "nat \<Rightarrow> nat" where
  "upper_cp c = (if 97 \<le> c \<and> c \<le> 122 then c - 32 else c)"

definition py_lower :: "pystr \<Rightarrow> pystr" where
  "py_lower s = map lower_cp s"

definition py_upper :: "pystr \<Rightarrow> pystr" where
  "py_upper s = map upper_cp s"

text \<open>\<^verbatim>\<open>s.replace(c, r)\<close> for a one-character pattern \<open>c\<close>.\<close>

definition replace_cp :: "nat \<Rightarrow> pystr \<Rightarrow> pystr \<Rightarrow> pystr" where
  "replace_cp c r s = concat (map (\<lambda>x. if x = c then r else [x]) s)"

text \<open>\<^verbatim>\<open>s.strip()\<close> and \<^verbatim>\<open>s.strip(chars)\<close>: the characters to strip are given as a predicate.\<close>

definition strip_by :: "(nat \<Rightarrow> bool) \<Rightarrow> pystr \<Rightarrow> pystr" where
  "strip_by P s = rev (dropWhile P (rev (dropWhile P s)))"

definition py_strip :: "pystr \<Rightarrow> pystr" where
  "py_strip s = strip_by isspace s"

text \<open>\<^verbatim>\<open>sub in s\<close>: \<open>sub\<close> occurs in \<open>s\<close> as a contiguous substring.\<close>

fun contains :: "pystr \<Rightarrow> pystr \<Rightarrow> bool" where
  "contains [] sub = (sub = [])"
| "contains (c # cs) sub = (prefix sub (c # cs) \<or> contains cs sub)"

text \<open>
  \<^verbatim>\<open>re.sub('[...]+', r, s)\<close> for a character class \<open>P\<close>: every maximal run of characters
  of the class is replaced by \<open>r\<close>.
\<close>

function re_sub_runs :: "(nat \<Rightarrow> bool) \<Rightarrow> pystr \<Rightarrow> pystr \<Rightarrow> pystr" where
  "re_sub_runs P r [] = []"
| "re_sub_runs P r (c # cs) =
     (if P c then r @ re_sub_runs P r (dropWhile P cs) else c # re_sub_runs P r cs)"
  by pat_completeness auto
termination
  by (relation "measure (\<lambda>(P, r, s). length s)") (auto simp: length_dropWhile_le less_Suc_eq_le)

section \<open>The resolver's normalization (generate\_geojson.py, lines 96 to 110)\<close>

text \<open>
  \<^verbatim>\<open>re.sub(r"\band\b", ' and ', s)\<close>. The flag says whether the character before the
  current position is a word character; a match needs a word boundary on both sides
  of \<^verbatim>\<open>and\<close>, and scanning goes on behind the match.
\<close>

fun sub_and :: "bool \<Rightarrow> pystr \<Rightarrow> pystr" where
  "sub_and pw [] = []"
| "sub_and pw (c # cs) =
     (if \<not> pw \<and> prefix (str ''and'') (c # cs) \<and> (case drop 2 cs of [] \<Rightarrow> True | d # _ \<Rightarrow> \<not> is_word d)
      then str '' and '' @ sub_and True (drop 2 cs)
      else c # sub_and (is_word c) cs)"

text \<open>
  \<^verbatim>\<open>re.sub(r'\s*-\s*', '-', s)\<close>: a match starts where the maximal run of whitespace is
  followed by a hyphen, and takes the whitespace behind the hyphen too.
\<close>

function sub_hyphen :: "pystr \<Rightarrow> pystr" where
  "sub_hyphen [] = []"
| "sub_hyphen (c # cs) =
     (case dropWhile isspace (c # cs) of
        [] \<Rightarrow> c # sub_hyphen cs
      | h # t \<Rightarrow> if h = 45 then 45 # sub_hyphen (dropWhile isspace t) else c # sub_hyphen cs)"
  by pat_completeness auto
termination
proof (relation "measure length")
  fix c :: nat and cs h t
  assume "dropWhile isspace (c # cs) = h # t"
  then have "length (h # t) \<le> length (c # cs)"
    by (metis length_dropWhile_le)
  moreover have "length (dropWhile isspace t) \<le> length t"
    by (rule length_dropWhile_le)
  ultimately show "(dropWhile isspace t, c # cs) \<in> measure length"
    by simp
qed auto

definition normalize_loc :: "pystr \<Rightarrow> pystr" where
  "normalize_loc loc_text =
     (let s = py_lower loc_text;
          s = replace_cp 10 (str '' '') s;
          s = sub_and False s;
          s = replace_cp 8211 (str ''-'') s;
          s = replace_cp 8212 (str ''-'') s;
          s = replace_cp 47 (str '', '') s;
          s = re_sub_runs (\<lambda>c. c = 95 \<or> c = 9) (str '' '') s;
          s = re_sub_runs (\<lambda>c. c \<in> {46, 40, 41, 91, 93}) (str '' '') s;
          s = sub_hyphen s
      in py_strip (re_sub_runs isspace (str '' '') s))"

section \<open>Dictionaries in insertion order\<close>

text \<open>
  The resolver iterates over \<^verbatim>\<open>dict\<close> items and returns at the first hit, so the order
  of the items decides the result. A dictionary is therefore an association list in
  insertion order: assigning to a key that is present keeps its place and replaces the
  value, a new key goes to the end.
\<close>

type_synonym ('k, 'v) pydict = "('k \<times> 'v) list"

definition dict_get :: "('k, 'v) pydict \<Rightarrow> 'k \<Rightarrow> 'v option" where
  "dict_get d k = map_of d k"

fun setitem :: "('k, 'v) pydict \<Rightarrow> 'k \<Rightarrow> 'v \<Rightarrow> ('k, 'v) pydict" where
  "setitem [] k v = [(k, v)]"
| "setitem ((k', v') # d) k v = (if k' = k then (k', v) # d else (k', v') # setitem d k v)"

definition dict_update :: "('k, 'v) pydict \<Rightarrow> ('k \<times> 'v) list \<Rightarrow> ('k, 'v) pydict" where
  "dict_update d items = foldl (\<lambda>d (k, v). setitem d k v) d items"

text \<open>A dictionary display \<^verbatim>\<open>{k1: v1, k2: v2, ...}\<close>, which may repeat a key.\<close>

definition py_dict :: "('k \<times> 'v) list \<Rightarrow> ('k, 'v) pydict" where
  "py_dict items = dict_update [] items"

section \<open>The gazetteer (generate\_geojson.py)\<close>

type_synonym coord = "real \<times> real"

definition STATE_COORDS :: "(pystr, coord) pydict" where
  "STATE_COORDS = [
    (str ''alabama'', (32.806671, - 86.791130)),
    (str ''alaska'', (61.370716, - 152.404419)),
    (str ''arizona'', (33.729759, - 111.431221)),
    (str ''arkansas'', (34.969704, - 92.373123)),
    (str ''california'', (36.116203, - 119.681564)),
    (str ''colorado'', (39.059811, - 105.311104)),
    (str ''connecticut'', (41.597782, - 72.755371)),
    (str ''delaware'', (39.318523, - 75.507141)),
    (str ''florida'', (27.766279, - 81.686783)),
    (str ''georgia'', (33.040619, - 83.643074)),
    (str ''hawaii'', (21.094318, - 157.498337)),
    (str ''idaho'', (44.240459, - 114.478828)),
    (str ''illinois'', (40.349457, - 88.986137)),
    (str ''indiana'', (39.849426, - 86.258278)),
    (str ''iowa'', (42.011539, - 93.210526)),
    (str ''kansas'', (38.526600, - 96.726486)),
    (str ''kentucky'', (37.668140, - 84.670067)),
    (str ''louisiana'', (31.169546, - 91.867805)),
    (str ''maine'', (44.693947, - 69.381927)),
    (str ''maryland'', (39.063946, - 76.802101)),
    (str ''massachusetts'', (42.230171, - 71.530106)),
    (str ''michigan'', (43.326618, - 84.536095)),
    (str ''minnesota'', (45.694454, - 93.900192)),
    (str ''mississippi'', (32.741646, - 89.678696)),
    (str ''missouri'', (38.456085, - 92.288368)),
    (str ''montana'', (46.921925, - 110.454353)),
    (str ''nebraska'', (41.125370, - 98.268082)),
    (str ''nevada'', (38.313515, - 117.055374)),
    (str ''new hampshire'', (43.452492, - 71.563896)),
    (str ''new jersey'', (40.298904, - 74.521011)),
    (str ''new mexico'', (34.840515, - 106.248482)),
    (str ''new york'', (42.165726, - 74.948051)),
    (str ''north carolina'', (35.630066, - 79.806419)),
    (str ''north dakota'', (47.528912, - 99.784012)),
    (str ''ohio'', (40.388783, - 82.764915)),
    (str ''oklahoma'', (35.565342, - 96.928917)),
    (str ''oregon'', (44.572021, - 122.070938)),
    (str ''pennsylvania'', (40.590752, - 77.209755)),
    (str ''rhode island'', (41.680893, - 71.511780)),
    (str ''south carolina'', (33.856892, - 80.945007)),
    (str ''south dakota'', (44.299782, - 99.438828)),
    (str ''tennessee'', (35.747845, - 86.692345)),
    (str ''texas'', (31.054487, - 97.563461)),
    (str ''utah'', (40.150032, - 111.862434)),
    (str ''vermont'', (44.045876, - 72.710686)),
    (str ''virginia'', (37.769337, - 78.169968)),
    (str ''washington'', (47.400902, - 121.490494)),
    (str ''west virginia'', (38.491226, - 80.954453)),
    (str ''wisconsin'', (44.268543, - 89.616508)),
    (str ''wyoming'', (42.755966, - 107.302490)),
    (str ''district of columbia'', (38.9072, - 77.0369)),
    (str ''puerto rico'', (18.2208, - 66.5901))]"

text \<open>
  The values of the region tables are written with \<^verbatim>\<open>STATE_COORDS.get\<close> in the source,
  which gives \<^verbatim>\<open>None\<close> for a missing key, so they are optional coordinates.
\<close>

definition REGION_COORDS :: "(pystr, coord option) pydict" where
  "REGION_COORDS = [
    (str ''southern united states'', Some (31.0, - 86.0)),
    (str ''southern united states,midwestern united states'', Some (36.0, - 88.0)),
    (str ''midwestern united states'', Some (41.5, - 90.0)),
    (str ''western united states'', Some (40.0, - 120.0)),
    (str ''eastern united states'', Some (40.0, - 75.0)),
    (str ''northeastern united states'', Some (43.0, - 71.0)),
    (str ''southeastern united states'', Some (32.0, - 82.0)),
    (str ''great lakes region'', Some (43.0, - 84.0)),
    (str ''hawaii'', dict_get STATE_COORDS (str ''hawaii'')),
    (str ''alaska'', dict_get STATE_COORDS (str ''alaska''))]"

definition expanded_regions :: "(pystr, coord option) pydict" where
  "expanded_regions = dict_update REGION_COORDS (py_dict [
    (str ''western north america'', Some (45.0, - 120.0)),
    (str ''east coast'', Some (40.0, - 73.0)),
    (str ''carolinas'', Some (35.5, - 79.0)),
    (str ''great plains'', Some (39.0, - 98.0)),
    (str ''great lakesarea'', Some (43.0, - 84.0)),
    (str ''northeast'', Some (43.0, - 71.0)),
    (str ''northwest'', Some (46.5, - 120.0)),
    (str ''south-central united states'', Some (33.0, - 95.0)),
    (str ''south central united states'', Some (33.0, - 95.0)),
    (str ''central and southern states'', Some (33.0, - 95.0)),
    (str ''midwestandnortheast'', Some (41.0, - 89.0)),
    (str ''midwest and northeast'', Some (41.0, - 89.0)),
    (str ''eastern us'', Some (40.0, - 75.0)),
    (str ''eastern united states'', Some (40.0, - 75.0)),
    (str ''western north america'', Some (45.0, - 120.0))])"

definition extra_keywords :: "(pystr, coord) pydict" where
  "extra_keywords = [
    (str ''caribbean'', (15.0, - 61.0)),
    (str ''venezuela'', (7.0, - 66.0)),
    (str ''yucatan'', (20.5, - 89.5)),
    (str ''yucat'' @ [225] @ str ''n'', (20.5, - 89.5)),
    (str ''american samoa'', (- 14.271, - 170.132)),
    (str ''atlantic canada'', (44.65, - 63.6)),
    (str ''widespread'', (39.8, - 98.5)),
    (str ''nation'', (39.8, - 98.5)),
    (str ''new england'', (42.5, - 71.5)),
    (str ''great lakes'', (43.0, - 84.0)),
    (str ''la plata'', (38.5, - 76.97))]"

text \<open>
  \<^verbatim>\<open>city_map\<close> subscripts \<^verbatim>\<open>STATE_COORDS\<close>; a missing key would raise \<^verbatim>\<open>KeyError\<close>. The
  lookups are kept as optional values, and \<open>city_map_defined\<close> below shows that none
  of them fails.
\<close>

definition city_map :: "(pystr, coord option) pydict" where
  "city_map = [
    (str ''texas'', dict_get STATE_COORDS (str ''texas'')),
    (str ''california'', dict_get STATE_COORDS (str ''california'')),
    (str ''los angeles'', dict_get STATE_COORDS (str ''california'')),
    (str ''greater los angeles'', dict_get STATE_COORDS (str ''california'')),
    (str ''florida'', dict_get STATE_COORDS (str ''florida'')),
    (str ''kansas'', dict_get STATE_COORDS (str ''kansas'')),
    (str ''montana'', dict_get STATE_COORDS (str ''montana'')),
    (str ''kentucky'', dict_get STATE_COORDS (str ''kentucky'')),
    (str ''new york'', dict_get STATE_COORDS (str ''new york'')),
    (str ''hawaii'', dict_get STATE_COORDS (str ''hawaii'')),
    (str ''puerto rico'', dict_get STATE_COORDS (str ''puerto rico'')),
    (str ''alaska'', dict_get STATE_COORDS (str ''alaska'')),
    (str ''fargo'', dict_get STATE_COORDS (str ''north dakota'')),
    (str ''waco'', dict_get STATE_COORDS (str ''texas'')),
    (str ''carolinas'', Some (35.5, - 79.0)),
    (str ''great plains'', Some (39.0, - 98.0)),
    (str ''great lakesarea'', Some (43.0, - 84.0)),
    (str ''midwest'', Some (41.5, - 90.0)),
    (str ''midwestern united states'', Some (41.5, - 90.0)),
    (str ''northwest'', Some (46.5, - 120.0)),
    (str ''northeast'', Some (43.0, - 71.0)),
    (str ''south central'', Some (33.0, - 95.0)),
    (str ''american samoa'', Some (- 14.271, - 170.132)),
    (str ''caribbean'', Some (15.0, - 61.0)),
    (str ''venezuela'', Some (7.0, - 66.0)),
    (str ''yucatan'', Some (20.5, - 89.5)),
    (str ''yucat'' @ [225] @ str ''n'', Some (20.5, - 89.5)),
    (str ''new england'', Some (42.5, - 71.5)),
    (str ''great lakes'', Some (43.0, - 84.0))]"

text \<open>
  The source builds \<^verbatim>\<open>abbr_map\<close> by swapping keys and values of the table from postal
  code to state name: \<^verbatim>\<open>{v: k for k, v in {...}.items()}\<close>.
\<close>

definition abbr_items :: "(pystr \<times> pystr) list" where
  "abbr_items = [
    (str ''AL'', str ''alabama''), (str ''AK'', str ''alaska''), (str ''AZ'', str ''arizona''),
    (str ''AR'', str ''arkansas''), (str ''CA'', str ''california''), (str ''CO'', str ''colorado''),
    (str ''CT'', str ''connecticut''), (str ''DE'', str ''delaware''), (str ''FL'', str ''florida''),
    (str ''GA'', str ''georgia''), (str ''HI'', str ''hawaii''), (str ''ID'', str ''idaho''),
    (str ''IL'', str ''illinois''), (str ''IN'', str ''indiana''), (str ''IA'', str ''iowa''),
    (str ''KS'', str ''kansas''), (str ''KY'', str ''kentucky''), (str ''LA'', str ''louisiana''),
    (str ''ME'', str ''maine''), (str ''MD'', str ''maryland''), (str ''MA'', str ''massachusetts''),
    (str ''MI'', str ''michigan''), (str ''MN'', str ''minnesota''), (str ''MS'', str ''mississippi''),
    (str ''MO'', str ''missouri''), (str ''MT'', str ''montana''), (str ''NE'', str ''nebraska''),
    (str ''NV'', str ''nevada''), (str ''NH'', str ''new hampshire''), (str ''NJ'', str ''new jersey''),
    (str ''NM'', str ''new mexico''), (str ''NY'', str ''new york''), (str ''NC'', str ''north carolina''),
    (str ''ND'', str ''north dakota''), (str ''OH'', str ''ohio''), (str ''OK'', str ''oklahoma''),
    (str ''OR'', str ''oregon''), (str ''PA'', str ''pennsylvania''), (str ''RI'', str ''rhode island''),
    (str ''SC'', str ''south carolina''), (str ''SD'', str ''south dakota''), (str ''TN'', str ''tennessee''),
    (str ''TX'', str ''texas''), (str ''UT'', str ''utah''), (str ''VT'', str ''vermont''),
    (str ''VA'', str ''virginia''), (str ''WA'', str ''washington''), (str ''WV'', str ''west virginia''),
    (str ''WI'', str ''wisconsin''), (str ''WY'', str ''wyoming'')]"

definition abbr_map :: "(pystr, pystr) pydict" where
  "abbr_map = py_dict (map (\<lambda>(k, v). (v, k)) (py_dict abbr_items))"

section \<open>The resolver: find\_location\_coords\<close>

text \<open>
  \<^verbatim>\<open>re.split\<close> for a pattern that never matches the empty string: \<open>m s\<close> is the length
  of the match of the pattern at the start of \<open>s\<close>, or 0 when there is none.
\<close>

fun cons_tok :: "nat \<Rightarrow> pystr list \<Rightarrow> pystr list" where
  "cons_tok c [] = [[c]]"
| "cons_tok c (t # ts) = (c # t) # ts"

function re_split :: "(pystr \<Rightarrow> nat) \<Rightarrow> pystr \<Rightarrow> pystr list" where
  "re_split m [] = [[]]"
| "re_split m (c # cs) =
     (if 0 < m (c # cs) then [] # re_split m (drop (m (c # cs)) (c # cs))
      else cons_tok c (re_split m cs))"
  by pat_completeness auto
termination
  by (relation "measure (\<lambda>(m, s). length s)") auto

text \<open>The separators of \<^verbatim>\<open>re.split(r'[,\/;]+| and | & ', s)\<close>.\<close>

definition loc_sep :: "pystr \<Rightarrow> nat" where
  "loc_sep s =
     (if takeWhile (\<lambda>c. c \<in> {44, 47, 59}) s \<noteq> [] then length (takeWhile (\<lambda>c. c \<in> {44, 47, 59}) s)
      else if prefix (str '' and '') s then 5
      else if prefix (str '' & '') s then 3
      else 0)"

text \<open>A loop over dictionary items that returns the value of the first key found in \<open>s\<close>.\<close>

fun first_contained :: "(pystr, 'v) pydict \<Rightarrow> pystr \<Rightarrow> 'v option" where
  "first_contained [] s = None"
| "first_contained ((k, v) # kvs) s = (if contains s k then Some v else first_contained kvs s)"

text \<open>
  The loop over the tokens (lines 132 to 136). \<open>Some r\<close> is the \<^verbatim>\<open>return\<close> inside the loop
  with the value \<open>r\<close> of \<^verbatim>\<open>STATE_COORDS.get(state_name)\<close>; \<open>None\<close> is the loop running
  to its end.
\<close>

fun abbr_loop :: "pystr list \<Rightarrow> coord option option" where
  "abbr_loop [] = None"
| "abbr_loop (tok # toks) =
     (let tok = py_strip tok in
      if length tok = 2 \<and> dict_get abbr_map (py_upper tok) \<noteq> None
      then (case dict_get abbr_map (py_upper tok) of
              Some state_name \<Rightarrow> Some (dict_get STATE_COORDS state_name)
            | None \<Rightarrow> None)
      else abbr_loop toks)"

definition find_location_coords :: "pystr \<Rightarrow> coord option" where
  "find_location_coords loc_text =
     (if loc_text = [] then None
      else
        let s = normalize_loc loc_text in
        case first_contained STATE_COORDS s of
          Some coord \<Rightarrow> Some coord
        | None \<Rightarrow>
        (case abbr_loop (re_split loc_sep s) of
          Some r \<Rightarrow> r
        | None \<Rightarrow>
        (case first_contained expanded_regions s of
          Some coord \<Rightarrow> coord
        | None \<Rightarrow>
        (case first_contained extra_keywords s of
          Some v \<Rightarrow> Some v
        | None \<Rightarrow>
        (case first_contained city_map s of
          Some v \<Rightarrow> v
        | None \<Rightarrow> None)))))"

section \<open>The column sanitizer (csv\_to\_db.py)\<close>

definition sanitize :: "pystr \<Rightarrow> pystr" where
  "sanitize col =
     (let col = py_strip col;
          col = replace_cp 36 (str ''usd'') col;
          col = re_sub_runs (\<lambda>c. \<not> is_alnum c) (str ''_'') col;
          col = re_sub_runs (\<lambda>c. c = 95) (str ''_'') col;
          col = py_lower (strip_by (\<lambda>c. c = 95) col);
          col = (if col = [] then str ''col'' else col)
      in case col of
           [] \<Rightarrow> col
         | c # _ \<Rightarrow> if is_digit c then str ''c_'' @ col else col)"

section \<open>The external geocoding pipeline (geocode\_nominatim.py)\<close>

definition normalize_query :: "pystr \<Rightarrow> pystr" where
  "normalize_query s =
     (if s = [] then []
      else
        let s = py_strip s;
            s = re_sub_runs isspace (str '' '') s
        in replace_cp 10 (str '' '') s)"

text \<open>
  A row of the table \<^verbatim>\<open>disasters\<close> as the scripts read it: the \<^verbatim>\<open>rowid\<close> and the values of
  the columns that a script selects by name. \<open>None\<close> is SQL \<^verbatim>\<open>NULL\<close>, or a column that
  the table does not have.
\<close>

record row =
  rid :: int
  location :: "pystr option"
  year :: "pystr option"
  disaster :: "pystr option"
  article :: "pystr option"
  main_article :: "pystr option"
  notes_col :: "pystr option"

record props =
  p_id :: int
  p_year :: "pystr option"
  p_disaster :: "pystr option"
  p_article :: "pystr option"
  p_location :: "pystr option"

text \<open>A feature with its point geometry; \<open>coordinates\<close> is the pair (longitude, latitude).\<close>

record feature =
  coordinates :: "real \<times> real"
  properties :: props

text \<open>The truth value of an optional string: \<^verbatim>\<open>None\<close> and the empty string are false.\<close>

fun truthy :: "pystr option \<Rightarrow> pystr list" where
  "truthy None = []"
| "truthy (Some s) = (if s = [] then [] else [s])"

fun py_join :: "pystr \<Rightarrow> pystr list \<Rightarrow> pystr" where
  "py_join sep [] = []"
| "py_join sep [x] = x"
| "py_join sep (x # y # ys) = x @ sep @ py_join sep (y # ys)"

definition hint :: pystr where
  "hint = str '', United States''"

text \<open>The query of one row (lines 99 to 112).\<close>

definition row_query :: "row \<Rightarrow> pystr" where
  "row_query r =
     (let q = (case location r of
                 Some loc \<Rightarrow>
                   if loc \<noteq> [] \<and> py_strip loc \<noteq> [] then normalize_query loc
                   else normalize_query (py_join (str '' '') (truthy (article r) @ truthy (notes_col r)))
               | None \<Rightarrow> normalize_query (py_join (str '' '') (truthy (article r) @ truthy (notes_col r))))
      in if q \<noteq> [] \<and> \<not> contains (py_lower q) (str ''united states'')
            \<and> \<not> contains (py_lower q) (str ''usa'')
            \<and> \<not> contains (py_lower q) (str ''puerto rico'')
            \<and> \<not> contains (py_lower q) (str ''venezuela'')
            \<and> \<not> contains (py_lower q) (str ''american samoa'')
         then q @ hint else q)"

definition build_queries :: "row list \<Rightarrow> (int, pystr) pydict" where
  "build_queries rows = foldl (\<lambda>queries r. setitem queries (rid r) (row_query r)) [] rows"

text \<open>The dictionary \<^verbatim>\<open>unique_qs\<close> counts the rows of every non-empty query.\<close>

definition build_unique_qs :: "(int, pystr) pydict \<Rightarrow> (pystr, nat) pydict" where
  "build_unique_qs queries =
     foldl (\<lambda>unique_qs (rid, q).
              if q = [] then unique_qs
              else setitem unique_qs q ((case dict_get unique_qs q of None \<Rightarrow> 0 | Some n \<Rightarrow> n) + 1))
           [] queries"

text \<open>
  The cache as \<^verbatim>\<open>load_cache\<close> returns it: a dictionary from query to a coordinate
  (\<^verbatim>\<open>{'lat': ..., 'lon': ...}\<close>) or to \<^verbatim>\<open>None\<close>, the negative marker.
\<close>

type_synonym cache = "(pystr, coord option) pydict"

definition missing_queries :: "(pystr, nat) pydict \<Rightarrow> cache \<Rightarrow> pystr list" where
  "missing_queries unique_qs cache = [q \<leftarrow> map fst unique_qs. dict_get cache q = None]"

text \<open>\<^verbatim>\<open>s.replace(pat, rep)\<close> for a non-empty pattern.\<close>

function replace_str :: "pystr \<Rightarrow> pystr \<Rightarrow> pystr \<Rightarrow> pystr" where
  "replace_str pat rep [] = []"
| "replace_str pat rep (c # cs) =
     (if pat \<noteq> [] \<and> prefix pat (c # cs) then rep @ replace_str pat rep (drop (length pat) (c # cs))
      else c # replace_str pat rep cs)"
  by pat_completeness auto
termination
  by (relation "measure (\<lambda>(pat, rep, s). length s)") auto

text \<open>The separators of \<^verbatim>\<open>re.split(r',|;| and | & ', q)\<close>.\<close>

definition query_sep :: "pystr \<Rightarrow> nat" where
  "query_sep s =
     (if prefix (str '','') s \<or> prefix (str '';'') s then 1
      else if prefix (str '' and '') s then 5
      else if prefix (str '' & '') s then 3
      else 0)"

text \<open>The loop that removes empty and repeated attempts, keeping the first of each.\<close>

fun dedupe :: "pystr list \<Rightarrow> pystr list \<Rightarrow> pystr list" where
  "dedupe seen [] = []"
| "dedupe seen (a # as) =
     (if a \<noteq> [] \<and> a \<notin> set seen then a # dedupe (a # seen) as else dedupe seen as)"

text \<open>The list \<^verbatim>\<open>out\<close> of \<^verbatim>\<open>try_geocode_variants\<close> (lines 132 to 149).\<close>

definition variant_list :: "pystr \<Rightarrow> pystr list" where
  "variant_list q =
     (let attempts = [q];
          attempts = (if suffix hint q then attempts @ [replace_str hint [] q] else attempts);
          parts = [py_strip p. p \<leftarrow> re_split query_sep q, py_strip p \<noteq> []];
          parts_sorted = sort_key (\<lambda>x. - int (length x)) parts;
          attempts = attempts @ parts_sorted;
          attempts = attempts @ [p @ hint. p \<leftarrow> parts_sorted]
      in dedupe [] attempts)"

text \<open>
  What a run does to the outside, in order: the line printed when the lookup of a
  missing query starts, every call of \<^verbatim>\<open>query_nominatim\<close>, and every \<^verbatim>\<open>time.sleep(1.1)\<close>.
\<close>

datatype event = Geocoding pystr | Request pystr | Sleep

text \<open>
  The remote service is a parameter: \<open>client a n\<close> is the answer of \<^verbatim>\<open>query_nominatim(a)\<close>
  when the service is in state \<open>n\<close>, and the state after the call. A network error, a
  response other than 200 and an empty result list are all the answer \<open>None\<close>.
\<close>

type_synonym 's client = "pystr \<Rightarrow> 's \<Rightarrow> coord option \<times> 's"

record 's world =
  net :: 's
  trace :: "event list"

fun try_attempts :: "'s client \<Rightarrow> pystr list \<Rightarrow> 's world \<Rightarrow> coord option \<times> 's world" where
  "try_attempts client [] w = (None, w)"
| "try_attempts client (a # as) w =
     (let (res, n) = client a (net w);
          w = w\<lparr>net := n, trace := trace w @ [Request a]\<rparr>
      in case res of
           Some c \<Rightarrow> (Some c, w)
         | None \<Rightarrow> try_attempts client as w)"

definition try_geocode_variants :: "'s client \<Rightarrow> pystr \<Rightarrow> 's world \<Rightarrow> coord option \<times> 's world" where
  "try_geocode_variants client q w =
     (if q = [] then (None, w) else try_attempts client (variant_list q) w)"

text \<open>The loop over the missing queries (lines 158 to 169).\<close>

fun geocode_loop :: "'s client \<Rightarrow> pystr list \<Rightarrow> cache \<Rightarrow> 's world \<Rightarrow> cache \<times> 's world" where
  "geocode_loop client [] cache w = (cache, w)"
| "geocode_loop client (q # qs) cache w =
     (let w = w\<lparr>trace := trace w @ [Geocoding q]\<rparr>;
          (res, w) = try_geocode_variants client q w;
          cache = setitem cache q res;
          w = w\<lparr>trace := trace w @ [Sleep]\<rparr>
      in geocode_loop client qs cache w)"

text \<open>
  The coordinate of one row when the features are built (lines 193 to 205):
  \<open>approx_map\<close> holds, by record id, the coordinates of the output file of an earlier run.
\<close>

definition row_coord :: "(int, pystr) pydict \<Rightarrow> cache \<Rightarrow> (int, coord) pydict \<Rightarrow> row \<Rightarrow> coord option" where
  "row_coord queries cache approx_map r =
     (let q = dict_get queries (rid r);
          coord = (case q of
                     None \<Rightarrow> None
                   | Some q \<Rightarrow> if q \<noteq> [] then (case dict_get cache q of Some (Some c) \<Rightarrow> Some c | _ \<Rightarrow> None)
                               else None);
          coord = (case coord of
                     None \<Rightarrow> dict_get approx_map (rid r)
                   | Some c \<Rightarrow> Some c)
      in case coord of
           None \<Rightarrow> find_location_coords (case q of None \<Rightarrow> [] | Some q \<Rightarrow> q)
         | Some c \<Rightarrow> Some c)"

definition build_features :: "(int, pystr) pydict \<Rightarrow> cache \<Rightarrow> (int, coord) pydict \<Rightarrow> row list \<Rightarrow> feature list" where
  "build_features queries cache approx_map rows =
     concat (map (\<lambda>r. case row_coord queries cache approx_map r of
                         None \<Rightarrow> []
                       | Some coord \<Rightarrow>
                           [\<lparr>coordinates = (snd coord, fst coord),
                             properties = \<lparr>p_id = rid r, p_year = year r, p_disaster = disaster r,
                                           p_article = article r, p_location = location r\<rparr>\<rparr>]) rows)"

text \<open>
  A run of \<^verbatim>\<open>main\<close>: the rows of the table, the loaded cache, the earlier output file and
  the remote service go in; the saved cache, the written features and the trace come
  out.
\<close>

record 's run_result =
  saved_cache :: cache
  features :: "feature list"
  final :: "'s world"

definition nominatim_main :: "'s client \<Rightarrow> row list \<Rightarrow> cache \<Rightarrow> (int, coord) pydict \<Rightarrow> 's world \<Rightarrow> 's run_result" where
  "nominatim_main client rows cache approx_map w =
     (let queries = build_queries rows;
          unique_qs = build_unique_qs queries;
          missing = missing_queries unique_qs cache;
          (cache, w) = geocode_loop client missing cache w
      in \<lparr>saved_cache = cache,
          features = build_features queries cache approx_map rows,
          final = w\<rparr>)"

section \<open>The offline pipeline (generate\_geojson.py, main)\<close>

definition offline_coord :: "row \<Rightarrow> coord option" where
  "offline_coord r =
     (case truthy (location r) of
        [] \<Rightarrow> find_location_coords (py_strip (py_join (str '' '') (truthy (main_article r) @ truthy (notes_col r))))
      | loc_text # _ \<Rightarrow> find_location_coords loc_text)"

definition offline_main :: "row list \<Rightarrow> feature list" where
  "offline_main rows =
     concat (map (\<lambda>r. case offline_coord r of
                         None \<Rightarrow> []
                       | Some coord \<Rightarrow>
                           [\<lparr>coordinates = (snd coord, fst coord),
                             properties = \<lparr>p_id = rid r, p_year = year r, p_disaster = disaster r,
                                           p_article = article r, p_location = location r\<rparr>\<rparr>]) rows)"

definition valid_coord :: "coord \<Rightarrow> bool" where
  "valid_coord c \<longleftrightarrow> - 90 \<le> fst c \<and> fst c \<le> 90 \<and> - 180 \<le> snd c \<and> snd c \<le> 180"


section \<open>Inputs for the examples\<close>

text \<open>
  A table with the single row \<^verbatim>\<open>Fargo, ND\<close>, a remote service that never has a result,
  and the state of the outside before a run.
\<close>

definition fargo_row :: row where
  "fargo_row = \<lparr>rid = 1, location = Some (str ''Fargo, ND''), year = None, disaster = None,
                 article = None, main_article = None, notes_col = None\<rparr>"

definition no_answer :: "unit client" where
  "no_answer a n = (None, n)"

definition start :: "unit world" where
  "start = \<lparr>net = (), trace = []\<rparr>"

section \<open>The sanitizer in the words of the specification\<close>

text \<open>
  The maximal runs of characters of a class, in order: the words of the header when the
  class is the alphanumeric characters. \<open>snake_case\<close> puts them in lower case and joins
  them with underscores; \<open>is_identifier\<close> is the shape of a column name.
\<close>

function words_by :: "(nat \<Rightarrow> bool) \<Rightarrow> pystr \<Rightarrow> pystr list" where
  "words_by P [] = []"
| "words_by P (c # cs) =
     (if P c then (c # takeWhile P cs) # words_by P (dropWhile P cs) else words_by P cs)"
  by pat_completeness auto
termination
  by (relation "measure (\<lambda>(P, s). length s)") (auto simp: length_dropWhile_le less_Suc_eq_le)

definition snake_case :: "pystr \<Rightarrow> pystr" where
  "snake_case s = py_join (str ''_'') (map py_lower (words_by is_alnum s))"

definition is_identifier :: "pystr \<Rightarrow> bool" where
  "is_identifier s \<longleftrightarrow>
     (case s of [] \<Rightarrow> False | c # _ \<Rightarrow> \<not> is_digit c \<and> c \<noteq> 95 \<and> last s \<noteq> 95)
     \<and> list_all (\<lambda>c. is_digit c \<or> (97 \<le> c \<and> c \<le> 122) \<or> c = 95) s"

definition strip_trailing :: "(nat \<Rightarrow> bool) \<Rightarrow> pystr \<Rightarrow> pystr" where
  "strip_trailing P s = rev (dropWhile P (rev s))"

section \<open>The cache file (geocode\_nominatim.py, load\_cache and save\_cache)\<close>

text \<open>
  \<^verbatim>\<open>save_cache\<close> writes \<^verbatim>\<open>json.dumps(cache, indent=2, ensure_ascii=False)\<close> to the cache
  file with the encoding UTF-8, and \<^verbatim>\<open>load_cache\<close> gives \<^verbatim>\<open>json.loads\<close> of the text of that
  file, or the empty dictionary when there is no file. The two functions are in
  \<^verbatim>\<open>src/geocode_nominatim.py\<close>; the JSON codec, the conversion of floating-point numbers
  and the UTF-8 codec belong to Python's library, and the definitions that stand for
  them here are written from the documentation of the library.
\<close>

datatype error = UnicodeEncodeError | JSONDecodeError

datatype nonfinite = NaN | PosInfinity | NegInfinity

text \<open>
  What \<^verbatim>\<open>json.loads\<close> returns: \<^verbatim>\<open>None\<close>, a truth value, a number, a string, a list, or a
  dictionary (its items in the order of insertion).
\<close>

datatype json =
  JNull | JBool bool | JNum real | JNonfinite nonfinite | JStr pystr | JArr "json list"
  | JObj "(pystr \<times> json) list"

text \<open>
  The cache in memory as the Python object that it is: a dictionary from the query to
  \<^verbatim>\<open>None\<close> or to the dictionary \<^verbatim>\<open>{'lat': ..., 'lon': ...}\<close> that \<^verbatim>\<open>query_nominatim\<close> builds.
\<close>

definition py_coord :: "coord \<Rightarrow> json" where
  "py_coord c = JObj [(str ''lat'', JNum (fst c)), (str ''lon'', JNum (snd c))]"

definition py_value :: "coord option \<Rightarrow> json" where
  "py_value v = (case v of None \<Rightarrow> JNull | Some c \<Rightarrow> py_coord c)"

definition py_object :: "cache \<Rightarrow> json" where
  "py_object cache = JObj (map (\<lambda>(q, v). (q, py_value v)) cache)"

subsection \<open>Writing JSON\<close>

text \<open>
  Modelled from the spec: \<^verbatim>\<open>json.dumps\<close> with \<^verbatim>\<open>ensure_ascii=False\<close> writes a string between
  double quotes; it escapes the double quote (34), the backslash (92) and the control
  characters below U+0020 (\<^verbatim>\<open>\n\<close>, \<^verbatim>\<open>\r\<close>, \<^verbatim>\<open>\t\<close>, \<^verbatim>\<open>\b\<close>, \<^verbatim>\<open>\f\<close>, and the others as \<^verbatim>\<open>\u00XX\<close>
  in lower-case hexadecimal), and writes every other character as it is.
\<close>

definition hex_digit :: "nat \<Rightarrow> nat" where
  "hex_digit d = (if d < 10 then 48 + d else 87 + d)"

definition encode_char :: "nat \<Rightarrow> pystr" where
  "encode_char c =
     (if c = 34 then [92, 34]
      else if c = 92 then [92, 92]
      else if c = 10 then [92, 110]
      else if c = 13 then [92, 114]
      else if c = 9 then [92, 116]
      else if c = 8 then [92, 98]
      else if c = 12 then [92, 102]
      else if c < 32 then [92, 117, 48, 48, hex_digit (c div 16), hex_digit (c mod 16)]
      else [c])"

definition encode_basestring :: "pystr \<Rightarrow> pystr" where
  "encode_basestring s = [34] @ concat (map encode_char s) @ [34]"

text \<open>
  Modelled from the spec: with \<^verbatim>\<open>indent=2\<close> every item of a non-empty dictionary is written
  on a line of its own, indented by two spaces for each level of nesting, as
  \<^verbatim>\<open>"key": value\<close>; the items are separated by a comma, the closing brace is on a line of its
  own at the level of the dictionary, and the empty dictionary is \<^verbatim>\<open>{}\<close>. \<^verbatim>\<open>None\<close> is
  written \<^verbatim>\<open>null\<close>, and a float as \<^verbatim>\<open>float.__repr__\<close> gives it, which is the parameter
  \<open>repr\<close>. \<open>json_dumps\<close> is \<^verbatim>\<open>json.dumps\<close> on the objects that a cache can be.
\<close>

definition newline_indent :: "nat \<Rightarrow> pystr" where
  "newline_indent level = 10 # replicate (2 * level) 32"

definition dumps_item :: "pystr \<Rightarrow> pystr \<Rightarrow> pystr" where
  "dumps_item k text = encode_basestring k @ str '': '' @ text"

definition dumps_dict :: "nat \<Rightarrow> pystr list \<Rightarrow> pystr" where
  "dumps_dict level items =
     (if items = [] then str ''{}''
      else str ''{'' @ newline_indent (level + 1)
           @ py_join (str '','' @ newline_indent (level + 1)) items
           @ newline_indent level @ str ''}'')"

definition dumps_coord :: "(real \<Rightarrow> pystr) \<Rightarrow> coord \<Rightarrow> pystr" where
  "dumps_coord repr c =
     dumps_dict 1 [dumps_item (str ''lat'') (repr (fst c)), dumps_item (str ''lon'') (repr (snd c))]"

definition dumps_value :: "(real \<Rightarrow> pystr) \<Rightarrow> coord option \<Rightarrow> pystr" where
  "dumps_value repr v = (case v of None \<Rightarrow> str ''null'' | Some c \<Rightarrow> dumps_coord repr c)"

definition json_dumps :: "(real \<Rightarrow> pystr) \<Rightarrow> cache \<Rightarrow> pystr" where
  "json_dumps repr cache = dumps_dict 0 (map (\<lambda>(q, v). dumps_item q (dumps_value repr v)) cache)"

subsection \<open>Reading JSON\<close>

text \<open>
  Modelled from the spec: the whitespace of JSON is the space, the tab, the line feed and
  the carriage return.
\<close>

definition is_ws :: "nat \<Rightarrow> bool" where
  "is_ws c \<longleftrightarrow> c = 32 \<or> c = 9 \<or> c = 10 \<or> c = 13"

definition skip_ws :: "pystr \<Rightarrow> pystr" where
  "skip_ws s = dropWhile is_ws s"

definition hex_value :: "nat \<Rightarrow> nat option" where
  "hex_value c =
     (if 48 \<le> c \<and> c \<le> 57 then Some (c - 48)
      else if 97 \<le> c \<and> c \<le> 102 then Some (c - 87)
      else if 65 \<le> c \<and> c \<le> 70 then Some (c - 55)
      else None)"

definition hex4 :: "pystr \<Rightarrow> nat option" where
  "hex4 s =
     (if length s < 4 \<or> \<not> list_all (\<lambda>c. hex_value c \<noteq> None) (take 4 s) then None
      else Some (foldl (\<lambda>a c. 16 * a + the (hex_value c)) 0 (take 4 s)))"

definition unescape :: "nat \<Rightarrow> nat option" where
  "unescape e =
     (if e = 34 then Some 34
      else if e = 92 then Some 92
      else if e = 47 then Some 47
      else if e = 98 then Some 8
      else if e = 102 then Some 12
      else if e = 110 then Some 10
      else if e = 114 then Some 13
      else if e = 116 then Some 9
      else None)"

definition consr :: "nat \<Rightarrow> error + pystr \<times> pystr \<Rightarrow> error + pystr \<times> pystr" where
  "consr c res = (case res of Inl e \<Rightarrow> Inl e | Inr (s, rest) \<Rightarrow> Inr (c # s, rest))"

text \<open>
  Modelled from the spec: the scanner of a string, on the text after the opening quote,
  gives the string and the text after the closing quote. A backslash starts an escape
  (one of \<^verbatim>\<open>" \ / b f n r t\<close>, or \<^verbatim>\<open>u\<close> and four hexadecimal digits, where a high surrogate
  followed by the escape of a low surrogate is the one character of the pair); a control
  character below U+0020 that is not escaped is refused, and so is a text that ends before
  the closing quote.
\<close>

function scan_string :: "pystr \<Rightarrow> error + pystr \<times> pystr" where
  "scan_string [] = Inl JSONDecodeError"
| "scan_string (c # cs) =
     (if c = 34 then Inr ([], cs)
      else if c = 92 then
        (case cs of
           [] \<Rightarrow> Inl JSONDecodeError
         | e # r \<Rightarrow>
             if e = 117 then
               (case hex4 r of
                  None \<Rightarrow> Inl JSONDecodeError
                | Some u \<Rightarrow>
                    if 55296 \<le> u \<and> u \<le> 56319 \<and> take 2 (drop 4 r) = [92, 117] then
                      (case hex4 (drop 6 r) of
                         None \<Rightarrow> Inl JSONDecodeError
                       | Some l \<Rightarrow>
                           if 56320 \<le> l \<and> l \<le> 57343
                           then consr (65536 + (u - 55296) * 1024 + (l - 56320))
                                  (scan_string (drop 10 r))
                           else consr u (scan_string (drop 4 r)))
                    else consr u (scan_string (drop 4 r)))
             else
               (case unescape e of
                  None \<Rightarrow> Inl JSONDecodeError
                | Some x \<Rightarrow> consr x (scan_string r)))
      else if c < 32 then Inl JSONDecodeError
      else consr c (scan_string cs))"
  by pat_completeness auto
termination
  by (relation "measure length") auto

text \<open>
  Modelled from the spec: a number is the longest run of the characters of a number
  literal (digits, sign, point, exponent mark), and the parameter \<open>number\<close> gives its
  value, or nothing when the run is not a number literal of JSON. The library reads the
  longest prefix that is a number literal and stops there; what follows is then one of
  these characters, which no document allows after a value, so that both refuse the
  document.
\<close>

definition is_num_char :: "nat \<Rightarrow> bool" where
  "is_num_char c \<longleftrightarrow> is_digit c \<or> c = 43 \<or> c = 45 \<or> c = 46 \<or> c = 69 \<or> c = 101"

text \<open>
  Modelled from the spec: the parser of a value, on a text that starts with the value,
  gives the value and the text after it. The members of a dictionary are collected in
  the order of the text, a key that comes again replacing the value of the first; the
  literals \<^verbatim>\<open>NaN\<close>, \<^verbatim>\<open>Infinity\<close> and \<^verbatim>\<open>-Infinity\<close> are accepted. The first argument after \<open>number\<close>
  bounds the number of values and members that are read; \<open>json_loads\<close> gives it the
  length of the text.
\<close>

fun parse_value :: "(pystr \<Rightarrow> real option) \<Rightarrow> nat \<Rightarrow> pystr \<Rightarrow> error + json \<times> pystr"
  and parse_members ::
    "(pystr \<Rightarrow> real option) \<Rightarrow> nat \<Rightarrow> (pystr \<times> json) list \<Rightarrow> pystr \<Rightarrow> error + json \<times> pystr"
  and parse_elements ::
    "(pystr \<Rightarrow> real option) \<Rightarrow> nat \<Rightarrow> json list \<Rightarrow> pystr \<Rightarrow> error + json \<times> pystr"
where
  "parse_value number 0 s = Inl JSONDecodeError"
| "parse_value number (Suc n) s =
     (case s of
        [] \<Rightarrow> Inl JSONDecodeError
      | c # r \<Rightarrow>
          if c = 34 then
            (case scan_string r of
               Inl e \<Rightarrow> Inl e
             | Inr (text, rest) \<Rightarrow> Inr (JStr text, rest))
          else if c = 123 then
            (case skip_ws r of
               [] \<Rightarrow> Inl JSONDecodeError
             | d # r' \<Rightarrow>
                 if d = 125 then Inr (JObj [], r')
                 else if d = 34 then parse_members number n [] r'
                 else Inl JSONDecodeError)
          else if c = 91 then
            (case skip_ws r of
               [] \<Rightarrow> Inl JSONDecodeError
             | d # r' \<Rightarrow>
                 if d = 93 then Inr (JArr [], r')
                 else parse_elements number n [] (d # r'))
          else if prefix (str ''null'') s then Inr (JNull, drop 4 s)
          else if prefix (str ''true'') s then Inr (JBool True, drop 4 s)
          else if prefix (str ''false'') s then Inr (JBool False, drop 5 s)
          else
            (case number (takeWhile is_num_char s) of
               Some x \<Rightarrow> Inr (JNum x, dropWhile is_num_char s)
             | None \<Rightarrow>
                 if prefix (str ''NaN'') s then Inr (JNonfinite NaN, drop 3 s)
                 else if prefix (str ''Infinity'') s then Inr (JNonfinite PosInfinity, drop 8 s)
                 else if prefix (str ''-Infinity'') s then Inr (JNonfinite NegInfinity, drop 9 s)
                 else Inl JSONDecodeError))"
| "parse_members number 0 acc s = Inl JSONDecodeError"
| "parse_members number (Suc n) acc s =
     (case scan_string s of
        Inl e \<Rightarrow> Inl e
      | Inr (key, r1) \<Rightarrow>
          (case skip_ws r1 of
             [] \<Rightarrow> Inl JSONDecodeError
           | c # r2 \<Rightarrow>
               if c \<noteq> 58 then Inl JSONDecodeError
               else
                 (case parse_value number n (skip_ws r2) of
                    Inl e \<Rightarrow> Inl e
                  | Inr (v, r3) \<Rightarrow>
                      (case skip_ws r3 of
                         [] \<Rightarrow> Inl JSONDecodeError
                       | d # r4 \<Rightarrow>
                           if d = 125 then Inr (JObj (setitem acc key v), r4)
                           else if d = 44 then
                             (case skip_ws r4 of
                                [] \<Rightarrow> Inl JSONDecodeError
                              | q # r5 \<Rightarrow>
                                  if q = 34 then parse_members number n (setitem acc key v) r5
                                  else Inl JSONDecodeError)
                           else Inl JSONDecodeError))))"
| "parse_elements number 0 acc s = Inl JSONDecodeError"
| "parse_elements number (Suc n) acc s =
     (case parse_value number n s of
        Inl e \<Rightarrow> Inl e
      | Inr (v, r1) \<Rightarrow>
          (case skip_ws r1 of
             [] \<Rightarrow> Inl JSONDecodeError
           | d # r2 \<Rightarrow>
               if d = 93 then Inr (JArr (acc @ [v]), r2)
               else if d = 44 then parse_elements number n (acc @ [v]) (skip_ws r2)
               else Inl JSONDecodeError))"

text \<open>
  Modelled from the spec: \<^verbatim>\<open>json.loads\<close> reads one value, with whitespace allowed before
  and after it, and refuses a text that goes on after the value.
\<close>

definition json_loads :: "(pystr \<Rightarrow> real option) \<Rightarrow> pystr \<Rightarrow> error + json" where
  "json_loads number text =
     (case parse_value number (Suc (length text)) (skip_ws text) of
        Inl e \<Rightarrow> Inl e
      | Inr (v, rest) \<Rightarrow> if skip_ws rest = [] then Inr v else Inl JSONDecodeError)"

subsection \<open>The file\<close>

text \<open>
  Modelled from the spec: the UTF-8 codec encodes every text that has no surrogate code
  point (U+D800 to U+DFFF) and refuses the others (the error handler is the default,
  \<^verbatim>\<open>strict\<close>); decoding what it has encoded gives the text back. A file of the store is
  therefore kept as the text that its bytes decode to. \<^verbatim>\<open>Path.write_text\<close> opens the file
  for writing, which creates or empties it, before the text is encoded, so that a text
  that is refused leaves an empty file behind.
\<close>

definition is_surrogate :: "nat \<Rightarrow> bool" where
  "is_surrogate c \<longleftrightarrow> 55296 \<le> c \<and> c \<le> 57343"

definition encodable :: "pystr \<Rightarrow> bool" where
  "encodable s \<longleftrightarrow> list_all (\<lambda>c. \<not> is_surrogate c) s"

text \<open>The store: the content of \<^verbatim>\<open>data/geocode_cache.json\<close>, or \<open>None\<close> when there is no such file.\<close>

record store =
  cache_file :: "pystr option"

definition write_text :: "pystr \<Rightarrow> store \<Rightarrow> error option \<times> store" where
  "write_text text fs =
     (if encodable text then (None, fs\<lparr>cache_file := Some text\<rparr>)
      else (Some UnicodeEncodeError, fs\<lparr>cache_file := Some []\<rparr>))"

text \<open>\<^verbatim>\<open>save_cache\<close> (lines 31 and 32): the result is the exception raised, if any, and the store.\<close>

definition save_cache :: "(real \<Rightarrow> pystr) \<Rightarrow> cache \<Rightarrow> store \<Rightarrow> error option \<times> store" where
  "save_cache repr cache fs = write_text (json_dumps repr cache) fs"

text \<open>\<^verbatim>\<open>load_cache\<close> (lines 25 to 28).\<close>

definition load_cache :: "(pystr \<Rightarrow> real option) \<Rightarrow> store \<Rightarrow> error + json" where
  "load_cache number fs =
     (case cache_file fs of
        Some text \<Rightarrow> json_loads number text
      | None \<Rightarrow> Inr (JObj []))"

text \<open>
  The numbers that the round trip of a float through its \<^verbatim>\<open>repr\<close> gives back: the \<^verbatim>\<open>repr\<close> is
  a number literal, and its value is the float. Python documents this of every finite float.
\<close>

definition float_round_trip :: "(real \<Rightarrow> pystr) \<Rightarrow> (pystr \<Rightarrow> real option) \<Rightarrow> real \<Rightarrow> bool" where
  "float_round_trip repr number x \<longleftrightarrow>
     repr x \<noteq> [] \<and> list_all is_num_char (repr x) \<and> number (repr x) = Some x"

definition floats_round_trip :: "(real \<Rightarrow> pystr) \<Rightarrow> (pystr \<Rightarrow> real option) \<Rightarrow> cache \<Rightarrow> bool" where
  "floats_round_trip repr number cache \<longleftrightarrow>
     list_all (\<lambda>(q, v). case v of
                 None \<Rightarrow> True
               | Some c \<Rightarrow> float_round_trip repr number (fst c) \<and> float_round_trip repr number (snd c))
       cache"

definition keys_encodable :: "cache \<Rightarrow> bool" where
  "keys_encodable cache \<longleftrightarrow> list_all (\<lambda>(q, v). encodable q) cache"

text \<open>
  An example of the two conversions, on the floats of one cache entry: the \<^verbatim>\<open>repr\<close> of the
  two floats as Python gives them, and the value of these two literals.
\<close>

definition example_repr :: "real \<Rightarrow> pystr" where
  "example_repr x =
     (if x = 46.8772 then str ''46.8772''
      else if x = - 96.7898 then str ''-96.7898''
      else str ''0.0'')"

definition example_number :: "pystr \<Rightarrow> real option" where
  "example_number s =
     (if s = str ''46.8772'' then Some 46.8772
      else if s = str ''-96.7898'' then Some (- 96.7898)
      else if s = str ''0.0'' then Some 0
      else None)"

definition example_cache :: cache where
  "example_cache =
     [(str ''Fargo, ND, United States'', Some (46.8772, - 96.7898)),
      (str ''Atlantis, United States'', None)]"

definition no_file :: store where
  "no_file = \<lparr>cache_file = None\<rparr>"


section \<open>The resolver's normalization, character by character\<close>

text \<open>
  The steps of the normalization behind the rewriting of \<^verbatim>\<open>and\<close> (lines 101 to 110, without
  the final \<^verbatim>\<open>strip\<close>), and the normalization as the composition that it is.
\<close>

definition squeeze :: "pystr \<Rightarrow> pystr" where
  "squeeze s =
     re_sub_runs isspace (str '' '')
       (sub_hyphen
         (re_sub_runs (\<lambda>c. c \<in> {46, 40, 41, 91, 93}) (str '' '')
           (re_sub_runs (\<lambda>c. c = 95 \<or> c = 9) (str '' '')
             (replace_cp 47 (str '', '')
               (replace_cp 8212 (str ''-'') (replace_cp 8211 (str ''-'') s))))))"

definition core :: "pystr \<Rightarrow> pystr" where
  "core s = squeeze (sub_and False s)"








section \<open>Evaluation of the gazetteer\<close>

lemmas char_defs = is_word_def is_alnum_def is_digit_def isspace_def lower_cp_def upper_cp_def

lemmas str_ops = str_def py_lower_def py_upper_def replace_cp_def py_strip_def strip_by_def

text \<open>The items of \<^verbatim>\<open>expanded_regions\<close> in the order in which the loop visits them.\<close>

lemma expanded_regions_eq:
  "expanded_regions = [
    (str ''southern united states'', Some (31.0, - 86.0)),
    (str ''southern united states,midwestern united states'', Some (36.0, - 88.0)),
    (str ''midwestern united states'', Some (41.5, - 90.0)),
    (str ''western united states'', Some (40.0, - 120.0)),
    (str ''eastern united states'', Some (40.0, - 75.0)),
    (str ''northeastern united states'', Some (43.0, - 71.0)),
    (str ''southeastern united states'', Some (32.0, - 82.0)),
    (str ''great lakes region'', Some (43.0, - 84.0)),
    (str ''hawaii'', Some (21.094318, - 157.498337)),
    (str ''alaska'', Some (61.370716, - 152.404419)),
    (str ''western north america'', Some (45.0, - 120.0)),
    (str ''east coast'', Some (40.0, - 73.0)),
    (str ''carolinas'', Some (35.5, - 79.0)),
    (str ''great plains'', Some (39.0, - 98.0)),
    (str ''great lakesarea'', Some (43.0, - 84.0)),
    (str ''northeast'', Some (43.0, - 71.0)),
    (str ''northwest'', Some (46.5, - 120.0)),
    (str ''south-central united states'', Some (33.0, - 95.0)),
    (str ''south central united states'', Some (33.0, - 95.0)),
    (str ''central and southern states'', Some (33.0, - 95.0)),
    (str ''midwestandnortheast'', Some (41.0, - 89.0)),
    (str ''midwest and northeast'', Some (41.0, - 89.0)),
    (str ''eastern us'', Some (40.0, - 75.0))]"
  by (simp add: expanded_regions_def REGION_COORDS_def dict_update_def py_dict_def
      STATE_COORDS_def dict_get_def str_def)

text \<open>
  The items of \<^verbatim>\<open>city_map\<close>; the subscripts of \<^verbatim>\<open>STATE_COORDS\<close> in it all succeed.
\<close>

lemma city_map_eq:
  "city_map = [
    (str ''texas'', Some (31.054487, - 97.563461)),
    (str ''california'', Some (36.116203, - 119.681564)),
    (str ''los angeles'', Some (36.116203, - 119.681564)),
    (str ''greater los angeles'', Some (36.116203, - 119.681564)),
    (str ''florida'', Some (27.766279, - 81.686783)),
    (str ''kansas'', Some (38.526600, - 96.726486)),
    (str ''montana'', Some (46.921925, - 110.454353)),
    (str ''kentucky'', Some (37.668140, - 84.670067)),
    (str ''new york'', Some (42.165726, - 74.948051)),
    (str ''hawaii'', Some (21.094318, - 157.498337)),
    (str ''puerto rico'', Some (18.2208, - 66.5901)),
    (str ''alaska'', Some (61.370716, - 152.404419)),
    (str ''fargo'', Some (47.528912, - 99.784012)),
    (str ''waco'', Some (31.054487, - 97.563461)),
    (str ''carolinas'', Some (35.5, - 79.0)),
    (str ''great plains'', Some (39.0, - 98.0)),
    (str ''great lakesarea'', Some (43.0, - 84.0)),
    (str ''midwest'', Some (41.5, - 90.0)),
    (str ''midwestern united states'', Some (41.5, - 90.0)),
    (str ''northwest'', Some (46.5, - 120.0)),
    (str ''northeast'', Some (43.0, - 71.0)),
    (str ''south central'', Some (33.0, - 95.0)),
    (str ''american samoa'', Some (- 14.271, - 170.132)),
    (str ''caribbean'', Some (15.0, - 61.0)),
    (str ''venezuela'', Some (7.0, - 66.0)),
    (str ''yucatan'', Some (20.5, - 89.5)),
    (str ''yucat'' @ [225] @ str ''n'', Some (20.5, - 89.5)),
    (str ''new england'', Some (42.5, - 71.5)),
    (str ''great lakes'', Some (43.0, - 84.0))]"
  by (simp add: city_map_def STATE_COORDS_def dict_get_def str_def)

section \<open>The two-letter codes never match\<close>

text \<open>
  The keys of \<^verbatim>\<open>abbr_map\<close> are the state names, in lower case, and the loop looks the
  token up in upper case: no token is a key.
\<close>

lemma py_upper_no_lower: "c \<in> set (py_upper t) \<Longrightarrow> \<not> (97 \<le> c \<and> c \<le> 122)"
  by (auto simp: py_upper_def upper_cp_def)

lemma abbr_map_keys_lower: "list_all (\<lambda>(k, v). list_ex (\<lambda>c. 97 \<le> c \<and> c \<le> 122) k) abbr_map"
  by (simp add: abbr_map_def abbr_items_def dict_update_def py_dict_def str_def)

lemma abbr_map_upper: "dict_get abbr_map (py_upper t) = None"
proof (rule ccontr)
  assume "dict_get abbr_map (py_upper t) \<noteq> None"
  then obtain v where "(py_upper t, v) \<in> set abbr_map"
    by (auto simp: dict_get_def dest: map_of_SomeD)
  with abbr_map_keys_lower have "list_ex (\<lambda>c. 97 \<le> c \<and> c \<le> 122) (py_upper t)"
    by (auto simp: list_all_iff)
  then show False
    using py_upper_no_lower by (auto simp: list_ex_iff)
qed

lemma abbr_loop_None: "abbr_loop toks = None"
  by (induction toks) (simp_all add: abbr_map_upper Let_def)

section \<open>The resolver on the inputs of the specification\<close>

lemma norm_TX: "normalize_loc (str ''TX'') = str ''tx''"
  by (simp add: normalize_loc_def str_ops char_defs)

lemma tokens_TX: "map py_strip (re_split loc_sep (str ''tx'')) = [str ''tx'']"
  by (simp add: loc_sep_def str_ops char_defs)

lemma states_TX: "first_contained STATE_COORDS (str ''tx'') = None"
  by (simp add: STATE_COORDS_def str_def)

lemma regions_TX: "first_contained expanded_regions (str ''tx'') = None"
  by (simp add: expanded_regions_eq str_def)

lemma extra_TX: "first_contained extra_keywords (str ''tx'') = None"
  by (simp add: extra_keywords_def str_def)

lemma city_TX: "first_contained city_map (str ''tx'') = None"
  by (simp add: city_map_eq str_def)

text \<open>
  C1. The resolver should check, as its second tier, the two-letter postal codes on
  the separator-delimited tokens and return the centroid of the state. On the input
  \<^verbatim>\<open>TX\<close> the normalized text is the single token \<^verbatim>\<open>tx\<close> of two characters, the table of
  codes does not have its upper-case form as a key, and the resolver returns no match.
\<close>

theorem find_location_coords_TX:
  "normalize_loc (str ''TX'') = str ''tx''
   \<and> map py_strip (re_split loc_sep (normalize_loc (str ''TX''))) = [str ''tx'']
   \<and> length (str ''tx'') = 2
   \<and> dict_get abbr_map (py_upper (str ''tx'')) = None
   \<and> find_location_coords (str ''TX'') = None"
proof -
  have ne: "str ''TX'' \<noteq> []"
    by (simp add: str_def)
  have "find_location_coords (str ''TX'') = None"
    unfolding find_location_coords_def
    by (simp add: ne norm_TX states_TX abbr_loop_None regions_TX extra_TX city_TX)
  then show ?thesis
    by (simp add: norm_TX tokens_TX abbr_map_upper) (simp add: str_def)
qed

lemma norm_florida: "normalize_loc (str ''FLorida'') = str ''florida''"
  by (simp add: normalize_loc_def str_ops char_defs)

lemma tokens_florida: "map py_strip (re_split loc_sep (str ''florida'')) = [str ''florida'']"
  by (simp add: loc_sep_def str_ops char_defs)

lemma states_florida: "first_contained STATE_COORDS (str ''florida'') = Some (27.766279, - 81.686783)"
  by (simp add: STATE_COORDS_def str_def)

lemma norm_fire: "normalize_loc (str ''Fire in FL, 1999'') = str ''fire in fl, 1999''"
  by (simp add: normalize_loc_def str_ops char_defs)

lemma tokens_fire:
  "map py_strip (re_split loc_sep (str ''fire in fl, 1999'')) = [str ''fire in fl'', str ''1999'']"
  by (simp add: loc_sep_def str_ops char_defs)

lemma states_fire: "first_contained STATE_COORDS (str ''fire in fl, 1999'') = None"
  by (simp add: STATE_COORDS_def str_def)

lemma regions_fire: "first_contained expanded_regions (str ''fire in fl, 1999'') = None"
  by (simp add: expanded_regions_eq str_def)

lemma extra_fire: "first_contained extra_keywords (str ''fire in fl, 1999'') = None"
  by (simp add: extra_keywords_def str_def)

lemma city_fire: "first_contained city_map (str ''fire in fl, 1999'') = None"
  by (simp add: city_map_eq str_def)

lemma find_fire: "find_location_coords (str ''Fire in FL, 1999'') = None"
proof -
  have ne: "str ''Fire in FL, 1999'' \<noteq> []"
    by (simp add: str_def)
  show ?thesis
    unfolding find_location_coords_def
    by (simp add: ne norm_fire states_fire abbr_loop_None regions_fire extra_fire city_fire)
qed

lemma norm_fargo: "normalize_loc (str ''Fargo, ND'') = str ''fargo, nd''"
  by (simp add: normalize_loc_def str_ops char_defs)

lemma states_fargo: "first_contained STATE_COORDS (str ''fargo, nd'') = None"
  by (simp add: STATE_COORDS_def str_def)

lemma regions_fargo: "first_contained expanded_regions (str ''fargo, nd'') = None"
  by (simp add: expanded_regions_eq str_def)

lemma extra_fargo: "first_contained extra_keywords (str ''fargo, nd'') = None"
  by (simp add: extra_keywords_def str_def)

lemma city_fargo:
  "first_contained city_map (str ''fargo, nd'') = Some (Some (47.528912, - 99.784012))"
  by (simp add: city_map_eq str_def)

lemma find_fargo: "find_location_coords (str ''Fargo, ND'') = Some (47.528912, - 99.784012)"
proof -
  have ne: "str ''Fargo, ND'' \<noteq> []"
    by (simp add: str_def)
  show ?thesis
    unfolding find_location_coords_def
    by (simp add: ne norm_fargo states_fargo abbr_loop_None regions_fargo extra_fargo city_fargo)
qed

text \<open>
  C2, as the specification states it: \<^verbatim>\<open>Fire in FL, 1999\<close> should match Florida through
  the two-letter codes. The separators cut the normalized text into the tokens
  \<^verbatim>\<open>fire in fl\<close> and \<^verbatim>\<open>1999\<close>; none has two characters, the loop over the tokens returns
  nothing, and the resolver has no match at all.
\<close>

theorem fire_in_FL_counterexample:
  "map py_strip (re_split loc_sep (normalize_loc (str ''Fire in FL, 1999'')))
     = [str ''fire in fl'', str ''1999'']
   \<and> length (str ''fire in fl'') \<noteq> 2 \<and> length (str ''1999'') \<noteq> 2
   \<and> abbr_loop (re_split loc_sep (normalize_loc (str ''Fire in FL, 1999''))) = None
   \<and> find_location_coords (str ''Fire in FL, 1999'') = None"
  by (simp add: norm_fire tokens_fire abbr_loop_None find_fire) (simp add: str_def)

text \<open>
  C2, amended: the two-letter codes are looked for on whole tokens only. \<^verbatim>\<open>FLorida\<close> is
  one token of seven characters and resolves through the state names;
  \<^verbatim>\<open>Fire in FL, 1999\<close> has the tokens \<^verbatim>\<open>fire in fl\<close> and \<^verbatim>\<open>1999\<close>, so no token of two
  characters, because blanks do not separate tokens; and \<^verbatim>\<open>Fargo, ND\<close> resolves to
  (47.528912, -99.784012).
\<close>

theorem two_letter_codes_token_isolated:
  "map py_strip (re_split loc_sep (normalize_loc (str ''FLorida''))) = [str ''florida'']
   \<and> filter (\<lambda>tok. length tok = 2) (map py_strip (re_split loc_sep (normalize_loc (str ''FLorida'')))) = []
   \<and> find_location_coords (str ''FLorida'') = first_contained STATE_COORDS (str ''florida'')
   \<and> find_location_coords (str ''FLorida'') = Some (27.766279, - 81.686783)
   \<and> filter (\<lambda>tok. length tok = 2)
        (map py_strip (re_split loc_sep (normalize_loc (str ''Fire in FL, 1999'')))) = []
   \<and> find_location_coords (str ''Fargo, ND'') = Some (47.528912, - 99.784012)"
proof -
  have ne: "str ''FLorida'' \<noteq> []"
    by (simp add: str_def)
  have fl: "find_location_coords (str ''FLorida'') = Some (27.766279, - 81.686783)"
    unfolding find_location_coords_def by (simp add: ne norm_florida states_florida)
  show ?thesis
    by (simp add: norm_florida tokens_florida norm_fire tokens_fire fl states_florida find_fargo)
      (simp add: str_def)
qed

section \<open>Dictionaries\<close>

lemma dict_get_setitem:
  "dict_get (setitem d k v) k' = (if k' = k then Some v else dict_get d k')"
  by (induction d) (auto simp: dict_get_def)

lemma setitem_new: "dict_get d k = None \<Longrightarrow> setitem d k v = d @ [(k, v)]"
  by (induction d) (auto simp: dict_get_def split: if_splits)

lemma keys_setitem: "fst ` set (setitem d k v) = insert k (fst ` set d)"
proof (induction d k v rule: setitem.induct)
  case (1 k v)
  then show ?case by simp
next
  case (2 k' v' d k v)
  show ?case
  proof (cases "k' = k")
    case True
    then show ?thesis by simp
  next
    case False
    with 2 show ?thesis by (simp add: insert_commute)
  qed
qed

lemma distinct_setitem: "distinct (map fst d) \<Longrightarrow> distinct (map fst (setitem d k v))"
  by (induction d) (auto simp: keys_setitem)

lemma dict_get_append:
  "dict_get (d @ e) k = (case dict_get d k of Some v \<Rightarrow> Some v | None \<Rightarrow> dict_get e k)"
  by (simp add: dict_get_def map_add_def split: option.splits)

lemma dict_get_None_iff: "dict_get d k = None \<longleftrightarrow> k \<notin> set (map fst d)"
  by (simp add: dict_get_def map_of_eq_None_iff)

section \<open>The queries of a run\<close>

lemma distinct_build_unique_qs_aux:
  "distinct (map fst d) \<Longrightarrow>
   distinct (map fst (foldl (\<lambda>unique_qs (rid :: int, q).
              if q = [] then unique_qs
              else setitem unique_qs q ((case dict_get unique_qs q of None \<Rightarrow> 0 | Some n \<Rightarrow> n) + (1::nat)))
           d queries))"
  by (induction queries arbitrary: d) (auto simp: distinct_setitem split: prod.splits)

lemma distinct_build_unique_qs: "distinct (map fst (build_unique_qs queries))"
  unfolding build_unique_qs_def by (rule distinct_build_unique_qs_aux) simp

lemma distinct_missing: "distinct (missing_queries (build_unique_qs queries) cache)"
  unfolding missing_queries_def by (simp add: distinct_build_unique_qs)

lemma missing_not_cached: "q \<in> set (missing_queries unique_qs cache) \<Longrightarrow> dict_get cache q = None"
  by (simp add: missing_queries_def)

section \<open>The lookup loop\<close>

lemma try_attempts_trace:
  "\<exists>k. trace (snd (try_attempts client as w)) = trace w @ map Request (take k as)"
proof (induction as arbitrary: w)
  case Nil
  then show ?case by simp
next
  case (Cons a as)
  obtain res n where c: "client a (net w) = (res, n)"
    by (cases "client a (net w)")
  show ?case
  proof (cases res)
    case None
    from Cons.IH[of "w\<lparr>net := n, trace := trace w @ [Request a]\<rparr>"]
    obtain k where "trace (snd (try_attempts client as (w\<lparr>net := n, trace := trace w @ [Request a]\<rparr>)))
        = (trace w @ [Request a]) @ map Request (take k as)"
      by auto
    then have "trace (snd (try_attempts client (a # as) w)) = trace w @ map Request (take (Suc k) (a # as))"
      using c None by simp
    then show ?thesis by blast
  next
    case (Some coord)
    then have "trace (snd (try_attempts client (a # as) w)) = trace w @ map Request (take 1 (a # as))"
      using c by simp
    then show ?thesis by blast
  qed
qed

lemma try_geocode_variants_trace:
  "\<exists>reqs. trace (snd (try_geocode_variants client q w)) = trace w @ map Request reqs"
proof (cases "q = []")
  case True
  then have "trace (snd (try_geocode_variants client q w)) = trace w @ map Request []"
    by (simp add: try_geocode_variants_def)
  then show ?thesis by blast
next
  case False
  then show ?thesis
    using try_attempts_trace[of client "variant_list q" w]
    by (auto simp: try_geocode_variants_def)
qed

lemma geocode_loop_trace:
  "\<exists>evs. trace (snd (geocode_loop client qs cache w)) = trace w @ evs
         \<and> (\<forall>q. Geocoding q \<in> set evs \<longleftrightarrow> q \<in> set qs)"
proof (induction qs arbitrary: cache w)
  case Nil
  then show ?case by simp
next
  case (Cons q qs)
  let ?w1 = "w\<lparr>trace := trace w @ [Geocoding q]\<rparr>"
  obtain res w2 where t: "try_geocode_variants client q ?w1 = (res, w2)"
    by (cases "try_geocode_variants client q ?w1")
  obtain reqs where r: "trace w2 = (trace w @ [Geocoding q]) @ map Request reqs"
    using try_geocode_variants_trace[of client q ?w1] t by auto
  let ?w3 = "w2\<lparr>trace := trace w2 @ [Sleep]\<rparr>"
  from Cons.IH[of "setitem cache q res" ?w3]
  obtain evs where e: "trace (snd (geocode_loop client qs (setitem cache q res) ?w3)) = trace ?w3 @ evs"
    and m: "\<forall>q'. Geocoding q' \<in> set evs \<longleftrightarrow> q' \<in> set qs"
    by blast
  have "geocode_loop client (q # qs) cache w = geocode_loop client qs (setitem cache q res) ?w3"
    using t by (simp add: Let_def)
  then have "trace (snd (geocode_loop client (q # qs) cache w))
      = trace w @ ([Geocoding q] @ map Request reqs @ [Sleep] @ evs)"
    using e r by simp
  moreover have "\<forall>q'. Geocoding q' \<in> set ([Geocoding q] @ map Request reqs @ [Sleep] @ evs) \<longleftrightarrow> q' \<in> set (q # qs)"
    using m by auto
  ultimately show ?case by blast
qed

lemma geocode_loop_cache:
  "distinct qs \<Longrightarrow> \<forall>q \<in> set qs. dict_get cache q = None \<Longrightarrow>
   \<exists>rs. length rs = length qs \<and> fst (geocode_loop client qs cache w) = cache @ zip qs rs"
proof (induction qs arbitrary: cache w)
  case Nil
  then show ?case by simp
next
  case (Cons q qs)
  let ?w1 = "w\<lparr>trace := trace w @ [Geocoding q]\<rparr>"
  obtain res w2 where t: "try_geocode_variants client q ?w1 = (res, w2)"
    by (cases "try_geocode_variants client q ?w1")
  let ?w3 = "w2\<lparr>trace := trace w2 @ [Sleep]\<rparr>"
  let ?c = "cache @ [(q, res)]"
  have s: "setitem cache q res = ?c"
    using Cons.prems by (simp add: setitem_new)
  have step: "geocode_loop client (q # qs) cache w = geocode_loop client qs ?c ?w3"
    using t s by (simp add: Let_def)
  have "\<forall>q' \<in> set qs. dict_get ?c q' = None"
    using Cons.prems by (auto simp: dict_get_append dict_get_def)
  with Cons.IH[of ?c ?w3] Cons.prems
  obtain rs where "length rs = length qs" "fst (geocode_loop client qs ?c ?w3) = ?c @ zip qs rs"
    by auto
  then have "length (res # rs) = length (q # qs) \<and>
      fst (geocode_loop client (q # qs) cache w) = cache @ zip (q # qs) (res # rs)"
    using step by simp
  then show ?case by blast
qed

section \<open>The example run\<close>

lemma row_query_fargo: "row_query fargo_row = str ''Fargo, ND, United States''"
  by (simp add: row_query_def fargo_row_def normalize_query_def hint_def str_ops char_defs)

lemma rid_fargo: "rid fargo_row = 1"
  by (simp add: fargo_row_def)

lemma query_fargo_nonempty: "str ''Fargo, ND, United States'' \<noteq> []"
  by (simp add: str_def)

lemma variants_fargo:
  "variant_list (str ''Fargo, ND, United States'') =
    [str ''Fargo, ND, United States'', str ''Fargo, ND'', str ''United States'', str ''Fargo'',
     str ''ND'', str ''United States, United States'', str ''Fargo, United States'',
     str ''ND, United States'']"
  by (simp add: variant_list_def hint_def query_sep_def str_ops char_defs suffix_def)

lemma norm_query_fargo:
  "normalize_loc (str ''Fargo, ND, United States'') = str ''fargo, nd, united states''"
  by (simp add: normalize_loc_def str_ops char_defs)

lemma states_query_fargo: "first_contained STATE_COORDS (str ''fargo, nd, united states'') = None"
  by (simp add: STATE_COORDS_def str_def)

lemma regions_query_fargo: "first_contained expanded_regions (str ''fargo, nd, united states'') = None"
  by (simp add: expanded_regions_eq str_def)

lemma extra_query_fargo: "first_contained extra_keywords (str ''fargo, nd, united states'') = None"
  by (simp add: extra_keywords_def str_def)

lemma city_query_fargo:
  "first_contained city_map (str ''fargo, nd, united states'') = Some (Some (47.528912, - 99.784012))"
  by (simp add: city_map_eq str_def)

lemma find_query_fargo:
  "find_location_coords (str ''Fargo, ND, United States'') = Some (47.528912, - 99.784012)"
  unfolding find_location_coords_def
  by (simp add: query_fargo_nonempty norm_query_fargo states_query_fargo abbr_loop_None
      regions_query_fargo extra_query_fargo city_query_fargo)

lemmas run_simps = nominatim_main_def build_queries_def build_unique_qs_def missing_queries_def
  dict_get_def try_geocode_variants_def build_features_def row_coord_def no_answer_def start_def
  Let_def row_query_fargo rid_fargo variants_fargo query_fargo_nonempty find_query_fargo

section \<open>The saved cache\<close>

lemma saved_cache_eq:
  "saved_cache (nominatim_main client rows cache approx_map w)
     = fst (geocode_loop client (missing_queries (build_unique_qs (build_queries rows)) cache) cache w)"
  by (simp add: nominatim_main_def Let_def split: prod.splits)

lemma final_eq:
  "final (nominatim_main client rows cache approx_map w)
     = snd (geocode_loop client (missing_queries (build_unique_qs (build_queries rows)) cache) cache w)"
  by (simp add: nominatim_main_def Let_def split: prod.splits)

lemma features_eq:
  "features (nominatim_main client rows cache approx_map w)
     = build_features (build_queries rows) (saved_cache (nominatim_main client rows cache approx_map w))
         approx_map rows"
  by (simp add: nominatim_main_def Let_def split: prod.splits)

lemma saved_cache_append:
  "\<exists>rs. length rs = length (missing_queries (build_unique_qs (build_queries rows)) cache)
     \<and> saved_cache (nominatim_main client rows cache approx_map w)
         = cache @ zip (missing_queries (build_unique_qs (build_queries rows)) cache) rs"
  unfolding saved_cache_eq
  by (rule geocode_loop_cache) (simp_all add: distinct_missing missing_not_cached)


section \<open>Negative entries\<close>

lemma row_coord_negative:
  "dict_get queries (rid r) = Some q \<Longrightarrow> dict_get cache q = Some None \<Longrightarrow>
   row_coord queries cache approx_map r
     = (case dict_get approx_map (rid r) of Some c \<Rightarrow> Some c | None \<Rightarrow> find_location_coords q)"
  by (simp add: row_coord_def split: option.splits)

text \<open>
  C4, as the specification states it: a record whose query has a negative entry should
  fall through to the heuristic resolver. In this run the query of the only record has a
  negative entry and no request is made, but the feature gets the coordinate (1, 2) that
  the earlier output file holds for the record, not the coordinate of the resolver.
\<close>

theorem negative_entry_counterexample:
  "dict_get [(str ''Fargo, ND, United States'', None)] (row_query fargo_row) = Some None
   \<and> map coordinates (features (nominatim_main no_answer [fargo_row]
        [(str ''Fargo, ND, United States'', None)] [(1, (1, 2))] start)) = [(2, 1)]
   \<and> find_location_coords (row_query fargo_row) = Some (47.528912, - 99.784012)"
  by (simp add: run_simps)

text \<open>
  C4, amended: when the loaded cache has the negative marker for a query, the query is
  not among the missing ones, the run never starts the lookup of that query, the saved
  cache still has the negative marker, and a record with that query takes the coordinate
  that the earlier output file has for its id and, when there is none, the result of the
  heuristic resolver on the query.
\<close>

theorem negative_entry_not_requeried:
  assumes "dict_get cache q = Some None"
  shows "q \<notin> set (missing_queries (build_unique_qs (build_queries rows)) cache)
    \<and> (\<exists>evs. trace (final (nominatim_main client rows cache approx_map w)) = trace w @ evs
           \<and> Geocoding q \<notin> set evs)
    \<and> dict_get (saved_cache (nominatim_main client rows cache approx_map w)) q = Some None
    \<and> (\<forall>r. dict_get (build_queries rows) (rid r) = Some q \<longrightarrow>
          row_coord (build_queries rows) (saved_cache (nominatim_main client rows cache approx_map w))
              approx_map r
            = (case dict_get approx_map (rid r) of
                 Some c \<Rightarrow> Some c
               | None \<Rightarrow> find_location_coords q))"
proof -
  let ?missing = "missing_queries (build_unique_qs (build_queries rows)) cache"
  let ?res = "nominatim_main client rows cache approx_map w"
  have m: "q \<notin> set ?missing"
    using assms missing_not_cached by fastforce
  obtain evs where "trace (final ?res) = trace w @ evs" "\<forall>q'. Geocoding q' \<in> set evs \<longleftrightarrow> q' \<in> set ?missing"
    unfolding final_eq using geocode_loop_trace by blast
  with m have t: "\<exists>evs. trace (final ?res) = trace w @ evs \<and> Geocoding q \<notin> set evs"
    by blast
  obtain rs where "saved_cache ?res = cache @ zip ?missing rs"
    using saved_cache_append by blast
  then have s: "dict_get (saved_cache ?res) q = Some None"
    using assms by (simp add: dict_get_append)
  show ?thesis
    using m t s row_coord_negative by blast
qed

theorem negative_entry_not_requeried_witness:
  "dict_get [(str ''Fargo, ND, United States'', None)] (str ''Fargo, ND, United States'') = Some None
   \<and> str ''Fargo, ND, United States''
        \<notin> set (missing_queries (build_unique_qs (build_queries [fargo_row]))
                 [(str ''Fargo, ND, United States'', None)])
   \<and> dict_get (build_queries [fargo_row]) (rid fargo_row) = Some (str ''Fargo, ND, United States'')
   \<and> row_coord (build_queries [fargo_row])
        (saved_cache (nominatim_main no_answer [fargo_row]
           [(str ''Fargo, ND, United States'', None)] [] start)) [] fargo_row
       = find_location_coords (str ''Fargo, ND, United States'')"
proof -
  have a: "dict_get [(str ''Fargo, ND, United States'', None)] (str ''Fargo, ND, United States'') = Some None"
    by (simp add: dict_get_def)
  have b: "dict_get (build_queries [fargo_row]) (rid fargo_row) = Some (str ''Fargo, ND, United States'')"
    by (simp add: build_queries_def dict_get_def row_query_fargo)
  have c: "dict_get ([] :: (int, coord) pydict) (rid fargo_row) = None"
    by (simp add: dict_get_def)
  show ?thesis
    using negative_entry_not_requeried[OF a, of "[fargo_row]" no_answer "[]" start] a b c
    by simp
qed

section \<open>The retry variants\<close>

text \<open>
  C5. The second attempt should be the query without the hint when the query ends with
  the hint (the source says: without trailing \<^verbatim>\<open>, United States\<close>). The query below
  ends with the hint and has it once more inside; the source removes both with
  \<^verbatim>\<open>str.replace\<close>, so that the second attempt is \<^verbatim>\<open>Guam, Hawaii\<close> and not the query cut
  at its end, \<^verbatim>\<open>Guam, United States, Hawaii\<close>.
\<close>

theorem variant_list_removes_every_hint:
  "suffix hint (str ''Guam, United States, Hawaii, United States'')
   \<and> take (length (str ''Guam, United States, Hawaii, United States'') - length hint)
        (str ''Guam, United States, Hawaii, United States'') = str ''Guam, United States, Hawaii''
   \<and> variant_list (str ''Guam, United States, Hawaii, United States'') =
       [str ''Guam, United States, Hawaii, United States'', str ''Guam, Hawaii'',
        str ''United States'', str ''Hawaii'', str ''Guam'', str ''United States, United States'',
        str ''Hawaii, United States'', str ''Guam, United States'']"
  by (simp add: variant_list_def hint_def query_sep_def str_ops char_defs suffix_def)

section \<open>Pacing\<close>

text \<open>
  C6. Every request should be preceded by the delay, also between the variants of one
  query. In the run below the only query is missing from the cache and the service has
  no result for any variant: the eight requests follow one another, and the only sleep
  of the run comes after the last of them.
\<close>

theorem requests_without_delay:
  "trace (final (nominatim_main no_answer [fargo_row] [] [] start)) =
    [Geocoding (str ''Fargo, ND, United States''),
     Request (str ''Fargo, ND, United States''),
     Request (str ''Fargo, ND''),
     Request (str ''United States''),
     Request (str ''Fargo''),
     Request (str ''ND''),
     Request (str ''United States, United States''),
     Request (str ''Fargo, United States''),
     Request (str ''ND, United States''),
     Sleep]"
  by (simp add: run_simps)

section \<open>Features: identifiers and coordinates\<close>

lemma first_contained_mem: "first_contained kvs s = Some v \<Longrightarrow> v \<in> snd ` set kvs"
  by (induction kvs s rule: first_contained.induct) (auto split: if_splits)

lemma states_valid: "\<forall>c \<in> snd ` set STATE_COORDS. valid_coord c"
  by (simp add: STATE_COORDS_def valid_coord_def)

lemma regions_valid: "\<forall>v \<in> snd ` set expanded_regions. \<forall>c. v = Some c \<longrightarrow> valid_coord c"
  by (simp add: expanded_regions_eq valid_coord_def)

lemma extra_valid: "\<forall>c \<in> snd ` set extra_keywords. valid_coord c"
  by (simp add: extra_keywords_def valid_coord_def)

lemma city_valid: "\<forall>v \<in> snd ` set city_map. \<forall>c. v = Some c \<longrightarrow> valid_coord c"
  by (simp add: city_map_eq valid_coord_def)

section \<open>Features: coordinates from the gazetteer, the cache and the earlier output\<close>

lemma find_location_coords_unfold:
  "x \<noteq> [] \<Longrightarrow> find_location_coords x =
     (case first_contained STATE_COORDS (normalize_loc x) of
        Some coord \<Rightarrow> Some coord
      | None \<Rightarrow>
      (case first_contained expanded_regions (normalize_loc x) of
        Some coord \<Rightarrow> coord
      | None \<Rightarrow>
      (case first_contained extra_keywords (normalize_loc x) of
        Some v \<Rightarrow> Some v
      | None \<Rightarrow>
      (case first_contained city_map (normalize_loc x) of
        Some v \<Rightarrow> v
      | None \<Rightarrow> None))))"
  by (simp add: find_location_coords_def abbr_loop_None Let_def cong: option.case_cong)

lemma find_location_coords_valid:
  assumes "find_location_coords x = Some c"
  shows "valid_coord c"
proof -
  let ?s = "normalize_loc x"
  have ne: "x \<noteq> []"
    using assms by (auto simp: find_location_coords_def)
  note u = assms[unfolded find_location_coords_unfold[OF ne]]
  show ?thesis
  proof (cases "first_contained STATE_COORDS ?s")
    case (Some v)
    with u have "v = c" by simp
    with first_contained_mem[OF Some] have "c \<in> snd ` set STATE_COORDS" by simp
    then show ?thesis by (rule states_valid[rule_format])
  next
    case n1: None
    show ?thesis
    proof (cases "first_contained expanded_regions ?s")
      case (Some v)
      with u n1 have "v = Some c" by simp
      with first_contained_mem[OF Some] have "Some c \<in> snd ` set expanded_regions" by simp
      then show ?thesis using regions_valid[rule_format, of "Some c" c] by simp
    next
      case n2: None
      show ?thesis
      proof (cases "first_contained extra_keywords ?s")
        case (Some v)
        with u n1 n2 have "v = c" by simp
        with first_contained_mem[OF Some] have "c \<in> snd ` set extra_keywords" by simp
        then show ?thesis by (rule extra_valid[rule_format])
      next
        case n3: None
        show ?thesis
        proof (cases "first_contained city_map ?s")
          case (Some v)
          with u n1 n2 n3 have "v = Some c" by simp
          with first_contained_mem[OF Some] have "Some c \<in> snd ` set city_map" by simp
          then show ?thesis using city_valid[rule_format, of "Some c" c] by simp
        next
          case None
          with u n1 n2 n3 show ?thesis by simp
        qed
      qed
    qed
  qed
qed

lemma try_attempts_valid:
  assumes "\<forall>a n c n'. client a n = (Some c, n') \<longrightarrow> valid_coord c"
  shows "fst (try_attempts client as w) = Some c \<Longrightarrow> valid_coord c"
proof (induction as arbitrary: w)
  case Nil
  then show ?case by simp
next
  case (Cons a as)
  obtain res n where r: "client a (net w) = (res, n)"
    by (cases "client a (net w)")
  show ?case
  proof (cases res)
    case None
    with Cons r show ?thesis by simp
  next
    case (Some c')
    with Cons.prems r have "c' = c" by simp
    with Some r assms show ?thesis by blast
  qed
qed

lemma try_geocode_variants_valid:
  assumes "\<forall>a n c n'. client a n = (Some c, n') \<longrightarrow> valid_coord c"
    and "fst (try_geocode_variants client q w) = Some c"
  shows "valid_coord c"
proof (cases "q = []")
  case True
  with assms(2) show ?thesis by (simp add: try_geocode_variants_def)
next
  case False
  with assms(2) have "fst (try_attempts client (variant_list q) w) = Some c"
    by (simp add: try_geocode_variants_def)
  then show ?thesis by (rule try_attempts_valid[OF assms(1)])
qed

lemma geocode_loop_valid:
  assumes "\<forall>a n c n'. client a n = (Some c, n') \<longrightarrow> valid_coord c"
  shows "\<forall>q c. dict_get cache q = Some (Some c) \<longrightarrow> valid_coord c \<Longrightarrow>
         dict_get (fst (geocode_loop client qs cache w)) k = Some (Some c) \<Longrightarrow> valid_coord c"
proof (induction qs arbitrary: cache w)
  case Nil
  from Nil(2) have "dict_get cache k = Some (Some c)" by simp
  with Nil(1) show ?case by blast
next
  case (Cons q qs)
  let ?w1 = "w\<lparr>trace := trace w @ [Geocoding q]\<rparr>"
  obtain res w2 where t: "try_geocode_variants client q ?w1 = (res, w2)"
    by (cases "try_geocode_variants client q ?w1")
  have v: "valid_coord c'" if "res = Some c'" for c'
    using try_geocode_variants_valid[OF assms, of q ?w1 c'] t that by simp
  let ?w3 = "w2\<lparr>trace := trace w2 @ [Sleep]\<rparr>"
  have step: "geocode_loop client (q # qs) cache w = geocode_loop client qs (setitem cache q res) ?w3"
    using t by (simp add: Let_def)
  have "\<forall>q' c'. dict_get (setitem cache q res) q' = Some (Some c') \<longrightarrow> valid_coord c'"
  proof (intro allI impI)
    fix q' c'
    assume a: "dict_get (setitem cache q res) q' = Some (Some c')"
    show "valid_coord c'"
    proof (cases "q' = q")
      case True
      with a have "res = Some c'" by (simp add: dict_get_setitem)
      then show ?thesis by (rule v)
    next
      case False
      with a have "dict_get cache q' = Some (Some c')" by (simp add: dict_get_setitem)
      with Cons.prems(1) show ?thesis by blast
    qed
  qed
  from Cons.IH[OF this] Cons.prems(2) step show ?case
    by simp
qed

lemma row_coord_valid:
  assumes c: "\<forall>q c. dict_get cache q = Some (Some c) \<longrightarrow> valid_coord c"
    and a: "\<forall>i c. dict_get approx_map i = Some c \<longrightarrow> valid_coord c"
    and r: "row_coord queries cache approx_map r = Some c"
  shows "valid_coord c"
proof -
  define q where "q = dict_get queries (rid r)"
  define cached where "cached = (case q of
      None \<Rightarrow> None
    | Some q \<Rightarrow> if q \<noteq> [] then (case dict_get cache q of Some (Some c) \<Rightarrow> Some c | _ \<Rightarrow> None)
                else None)"
  have cv: "valid_coord c'" if "cached = Some c'" for c'
    using that c unfolding cached_def by (auto split: option.splits if_splits)
  have u: "row_coord queries cache approx_map r =
      (case (case cached of None \<Rightarrow> dict_get approx_map (rid r) | Some c \<Rightarrow> Some c) of
         None \<Rightarrow> find_location_coords (case q of None \<Rightarrow> [] | Some q \<Rightarrow> q)
       | Some c \<Rightarrow> Some c)"
    unfolding row_coord_def Let_def q_def cached_def by (rule refl)
  show ?thesis
  proof (cases cached)
    case (Some c')
    with r u have "c' = c" by simp
    with Some cv show ?thesis by simp
  next
    case n: None
    show ?thesis
    proof (cases "dict_get approx_map (rid r)")
      case (Some c')
      with r u n have "c' = c" by simp
      with Some a show ?thesis by blast
    next
      case None
      with r u n have "find_location_coords (case q of None \<Rightarrow> [] | Some q \<Rightarrow> q) = Some c"
        by simp
      then show ?thesis by (rule find_location_coords_valid)
    qed
  qed
qed

lemma build_features_mem:
  assumes "f \<in> set (build_features queries cache approx_map rows)"
  shows "\<exists>r \<in> set rows. p_id (properties f) = rid r
      \<and> row_coord queries cache approx_map r = Some (snd (coordinates f), fst (coordinates f))"
proof -
  from assms obtain r where r: "r \<in> set rows"
    and f: "f \<in> set (case row_coord queries cache approx_map r of
                None \<Rightarrow> []
              | Some coord \<Rightarrow>
                  [\<lparr>coordinates = (snd coord, fst coord),
                    properties = \<lparr>p_id = rid r, p_year = year r, p_disaster = disaster r,
                                  p_article = article r, p_location = location r\<rparr>\<rparr>])"
    by (auto simp: build_features_def)
  then have "p_id (properties f) = rid r
      \<and> row_coord queries cache approx_map r = Some (snd (coordinates f), fst (coordinates f))"
    by (cases "row_coord queries cache approx_map r") auto
  with r show ?thesis by blast
qed

lemma offline_main_mem:
  assumes "f \<in> set (offline_main rows)"
  shows "\<exists>r \<in> set rows. p_id (properties f) = rid r
      \<and> offline_coord r = Some (snd (coordinates f), fst (coordinates f))"
proof -
  from assms obtain r where r: "r \<in> set rows"
    and f: "f \<in> set (case offline_coord r of
                None \<Rightarrow> []
              | Some coord \<Rightarrow>
                  [\<lparr>coordinates = (snd coord, fst coord),
                    properties = \<lparr>p_id = rid r, p_year = year r, p_disaster = disaster r,
                                  p_article = article r, p_location = location r\<rparr>\<rparr>])"
    by (auto simp: offline_main_def)
  then have "p_id (properties f) = rid r
      \<and> offline_coord r = Some (snd (coordinates f), fst (coordinates f))"
    by (cases "offline_coord r") auto
  with r show ?thesis by blast
qed

lemma offline_coord_valid: "offline_coord r = Some c \<Longrightarrow> valid_coord c"
  by (cases "truthy (location r)") (auto simp: offline_coord_def intro: find_location_coords_valid)

lemma unique_row:
  assumes "distinct (map rid rows)" and "r \<in> set rows"
  shows "\<exists>!r'. r' \<in> set rows \<and> rid r' = rid r"
proof -
  have "inj_on rid (set rows)"
    using assms(1) by (simp add: distinct_map)
  with assms(2) show ?thesis
    by (auto dest: inj_onD)
qed

text \<open>
  C7, as the specification states it: every feature should have valid coordinates, also
  when they come from the cache. The scripts never check a coordinate. In this run the
  cache file has the latitude 999 for the query of the only record, and the feature is
  written with it.
\<close>

theorem cached_coordinate_counterexample:
  "dict_get [(str ''Fargo, ND, United States'', Some (999, 0))] (row_query fargo_row)
     = Some (Some (999, 0))
   \<and> map coordinates (features (nominatim_main no_answer [fargo_row]
        [(str ''Fargo, ND, United States'', Some (999, 0))] [] start)) = [(0, 999)]
   \<and> \<not> valid_coord (999, 0)"
  by (simp add: run_simps valid_coord_def)

text \<open>
  C7, amended: when the record ids are distinct, every feature of either script has the
  id of exactly one record. The coordinates of the offline script always are valid,
  since they come from the gazetteer; those of the geocoding script are valid when the
  coordinates in the loaded cache, in the earlier output file and in the answers of the
  remote service are valid, which the scripts take as they come.
\<close>

theorem features_ids_and_coordinates:
  assumes "distinct (map rid rows)"
  shows "(\<forall>f \<in> set (offline_main rows).
            (\<exists>!r. r \<in> set rows \<and> rid r = p_id (properties f))
            \<and> valid_coord (snd (coordinates f), fst (coordinates f)))
       \<and> (\<forall>f \<in> set (features (nominatim_main client rows cache approx_map w)).
            (\<exists>!r. r \<in> set rows \<and> rid r = p_id (properties f))
            \<and> ((\<forall>q c. dict_get cache q = Some (Some c) \<longrightarrow> valid_coord c)
                 \<and> (\<forall>i c. dict_get approx_map i = Some c \<longrightarrow> valid_coord c)
                 \<and> (\<forall>a n c n'. client a n = (Some c, n') \<longrightarrow> valid_coord c)
                \<longrightarrow> valid_coord (snd (coordinates f), fst (coordinates f))))"
proof (intro conjI ballI impI)
  fix f
  assume "f \<in> set (offline_main rows)"
  then obtain r where r: "r \<in> set rows" "p_id (properties f) = rid r"
    "offline_coord r = Some (snd (coordinates f), fst (coordinates f))"
    using offline_main_mem by blast
  show "\<exists>!r. r \<in> set rows \<and> rid r = p_id (properties f)"
    using unique_row[OF assms r(1)] r(2) by simp
  show "valid_coord (snd (coordinates f), fst (coordinates f))"
    using r(3) by (rule offline_coord_valid)
next
  let ?res = "nominatim_main client rows cache approx_map w"
  fix f
  assume "f \<in> set (features ?res)"
  then have "f \<in> set (build_features (build_queries rows) (saved_cache ?res) approx_map rows)"
    using features_eq[of client rows cache approx_map w] by simp
  then obtain r where r: "r \<in> set rows" "p_id (properties f) = rid r"
    "row_coord (build_queries rows) (saved_cache ?res) approx_map r
       = Some (snd (coordinates f), fst (coordinates f))"
    using build_features_mem by blast
  show "\<exists>!r. r \<in> set rows \<and> rid r = p_id (properties f)"
    using unique_row[OF assms r(1)] r(2) by simp
  assume v: "(\<forall>q c. dict_get cache q = Some (Some c) \<longrightarrow> valid_coord c)
       \<and> (\<forall>i c. dict_get approx_map i = Some c \<longrightarrow> valid_coord c)
       \<and> (\<forall>a n c n'. client a n = (Some c, n') \<longrightarrow> valid_coord c)"
  then have cl: "\<forall>a n c n'. client a n = (Some c, n') \<longrightarrow> valid_coord c"
    and ca: "\<forall>q c. dict_get cache q = Some (Some c) \<longrightarrow> valid_coord c"
    and ap: "\<forall>i c. dict_get approx_map i = Some c \<longrightarrow> valid_coord c"
    by blast+
  have "\<forall>q c. dict_get (saved_cache ?res) q = Some (Some c) \<longrightarrow> valid_coord c"
    unfolding saved_cache_eq using geocode_loop_valid[OF cl ca] by blast
  then show "valid_coord (snd (coordinates f), fst (coordinates f))"
    using ap r(3) by (rule row_coord_valid)
qed

lemma location_fargo: "truthy (location fargo_row) = [str ''Fargo, ND'']"
  by (simp add: fargo_row_def str_def)

theorem features_ids_and_coordinates_witness:
  "distinct (map rid [fargo_row])
   \<and> map coordinates (offline_main [fargo_row]) = [(- 99.784012, 47.528912)]
   \<and> map coordinates (features (nominatim_main no_answer [fargo_row]
        [(str ''Fargo, ND, United States'', Some (46.8772, - 96.7898))] [] start))
       = [(- 96.7898, 46.8772)]
   \<and> list_all (\<lambda>f. (\<exists>!r. r \<in> set [fargo_row] \<and> rid r = p_id (properties f))
                  \<and> valid_coord (snd (coordinates f), fst (coordinates f)))
        (offline_main [fargo_row])
   \<and> list_all (\<lambda>f. (\<exists>!r. r \<in> set [fargo_row] \<and> rid r = p_id (properties f))
                  \<and> valid_coord (snd (coordinates f), fst (coordinates f)))
        (features (nominatim_main no_answer [fargo_row]
             [(str ''Fargo, ND, United States'', Some (46.8772, - 96.7898))] [] start))"
proof -
  let ?cache = "[(str ''Fargo, ND, United States'', Some (46.8772, - 96.7898))] :: cache"
  have d: "distinct (map rid [fargo_row])"
    by simp
  have o: "map coordinates (offline_main [fargo_row]) = [(- 99.784012, 47.528912)]"
    by (simp add: offline_main_def offline_coord_def location_fargo find_fargo)
  have n: "map coordinates (features (nominatim_main no_answer [fargo_row] ?cache [] start))
       = [(- 96.7898, 46.8772)]"
    by (simp add: run_simps)
  have h: "(\<forall>q c. dict_get ?cache q = Some (Some c) \<longrightarrow> valid_coord c)
       \<and> (\<forall>i c. dict_get ([] :: (int, coord) pydict) i = Some c \<longrightarrow> valid_coord c)
       \<and> (\<forall>a n c n'. no_answer a n = (Some c, n') \<longrightarrow> valid_coord c)"
    by (simp add: dict_get_def no_answer_def valid_coord_def)
  note t = features_ids_and_coordinates[OF d, of no_answer ?cache "[]" start]
  have a: "list_all (\<lambda>f. (\<exists>!r. r \<in> set [fargo_row] \<and> rid r = p_id (properties f))
                  \<and> valid_coord (snd (coordinates f), fst (coordinates f)))
        (offline_main [fargo_row])"
    unfolding list_all_iff using t by blast
  have b: "list_all (\<lambda>f. (\<exists>!r. r \<in> set [fargo_row] \<and> rid r = p_id (properties f))
                  \<and> valid_coord (snd (coordinates f), fst (coordinates f)))
        (features (nominatim_main no_answer [fargo_row] ?cache [] start))"
    unfolding list_all_iff using t h by blast
  from d o n a b show ?thesis
    by (intro conjI)
qed

section \<open>The column sanitizer\<close>

lemma strip_by_alt: "strip_by P s = strip_trailing P (dropWhile P s)"
  by (simp add: strip_by_def strip_trailing_def)

lemma strip_trailing_append:
  "strip_trailing P (a @ b) = (if strip_trailing P b = [] then strip_trailing P a else a @ strip_trailing P b)"
  by (auto simp: strip_trailing_def dropWhile_append dropWhile_eq_Nil_conv)

lemma strip_trailing_Nil [simp]: "strip_trailing P [] = []"
  by (simp add: strip_trailing_def)

lemma strip_trailing_single: "strip_trailing P [c] = (if P c then [] else [c])"
  by (simp add: strip_trailing_def)

lemma strip_trailing_id: "s \<noteq> [] \<Longrightarrow> \<not> P (last s) \<Longrightarrow> strip_trailing P s = s"
  by (cases s rule: rev_cases) (simp_all add: strip_trailing_def)

lemma re_sub_runs_prefix:
  "\<forall>c \<in> set w. \<not> P c \<Longrightarrow> re_sub_runs P r (w @ t) = w @ re_sub_runs P r t"
  by (induction w) simp_all


lemma re_sub_runs_hd_other:
  "s = [] \<or> \<not> P (hd s) \<Longrightarrow> P u \<Longrightarrow> dropWhile (\<lambda>c. c = u) (re_sub_runs P [u] s) = re_sub_runs P [u] s"
  by (cases s) auto

lemma dropWhile_hd: "dropWhile P s = [] \<or> \<not> P (hd (dropWhile P s))"
  by (metis hd_dropWhile)

lemma re_sub_runs_twice:
  "P u \<Longrightarrow> re_sub_runs (\<lambda>c. c = u) [u] (re_sub_runs P [u] s) = re_sub_runs P [u] s"
proof (induction P "[u]" s rule: re_sub_runs.induct)
  case (1 P)
  then show ?case by simp
next
  case (2 P c cs)
  show ?case
  proof (cases "P c")
    case True
    have "dropWhile (\<lambda>c. c = u) (re_sub_runs P [u] (dropWhile P cs)) = re_sub_runs P [u] (dropWhile P cs)"
      using dropWhile_hd[of P cs] 2(3) by (rule re_sub_runs_hd_other)
    with True 2 show ?thesis by simp
  next
    case False
    with 2 have "c \<noteq> u" by auto
    with False 2 show ?thesis by simp
  qed
qed

lemma dropWhile_re_sub_runs:
  "P u \<Longrightarrow> dropWhile (\<lambda>c. c = u) (re_sub_runs P [u] s) = re_sub_runs P [u] (dropWhile P s)"
proof (cases s)
  case Nil
  then show ?thesis by simp
next
  case (Cons c cs)
  assume u: "P u"
  show ?thesis
  proof (cases "P c")
    case True
    have "dropWhile (\<lambda>c. c = u) (re_sub_runs P [u] (dropWhile P cs)) = re_sub_runs P [u] (dropWhile P cs)"
      using dropWhile_hd[of P cs] u by (rule re_sub_runs_hd_other)
    with True Cons show ?thesis by simp
  next
    case False
    with u have "c \<noteq> u" by auto
    with False Cons show ?thesis by simp
  qed
qed

lemma words_by_nonempty: "w \<in> set (words_by A s) \<Longrightarrow> w \<noteq> [] \<and> (\<forall>c \<in> set w. A c)"
proof (induction A s rule: words_by.induct)
  case (1 A)
  then show ?case by simp
next
  case (2 A c cs)
  show ?case
  proof (cases "A c")
    case True
    with 2(3) have "w = c # takeWhile A cs \<or> w \<in> set (words_by A (dropWhile A cs))"
      by simp
    then show ?thesis
    proof
      assume "w = c # takeWhile A cs"
      with True show ?thesis by (auto dest: set_takeWhileD)
    next
      assume "w \<in> set (words_by A (dropWhile A cs))"
      with 2(1)[OF True] show ?thesis .
    qed
  next
    case False
    with 2(3) have "w \<in> set (words_by A cs)" by simp
    with 2(2)[OF False] show ?thesis .
  qed
qed

lemma py_join_Cons: "py_join sep (w # ws) = (if ws = [] then w else w @ sep @ py_join sep ws)"
  by (cases ws) simp_all

lemma py_join_Nil_iff: "\<forall>w \<in> set ws. w \<noteq> [] \<Longrightarrow> py_join sep ws = [] \<longleftrightarrow> ws = []"
  by (cases ws) (simp_all add: py_join_Cons)

lemma words_by_join_Nil_iff: "py_join sep (words_by A s) = [] \<longleftrightarrow> words_by A s = []"
  by (rule py_join_Nil_iff) (simp add: words_by_nonempty)

lemma strip_trailing_Cons:
  "strip_trailing P (c # X)
     = (if strip_trailing P X = [] then (if P c then [] else [c]) else c # strip_trailing P X)"
  using strip_trailing_append[of P "[c]" X] by (simp add: strip_trailing_single)

lemma strip_trailing_sep:
  assumes "strip_trailing (\<lambda>c. c = u) W = W"
  shows "strip_trailing (\<lambda>c. c = u) (W @ [u] @ X)
           = (if strip_trailing (\<lambda>c. c = u) X = [] then W else W @ [u] @ strip_trailing (\<lambda>c. c = u) X)"
  using assms by (simp add: strip_trailing_append[of _ W "u # X"] strip_trailing_Cons)

lemma words_join:
  assumes u: "\<not> A u"
  shows "strip_trailing (\<lambda>c. c = u) (re_sub_runs (\<lambda>c. \<not> A c) [u] (dropWhile (\<lambda>c. \<not> A c) s))
           = py_join [u] (words_by A s)"
  using u
proof (induction A s rule: words_by.induct)
  case (1 A)
  then show ?case by simp
next
  case (2 A c cs)
  let ?N = "\<lambda>c. \<not> A c"
  show ?case
  proof (cases "A c")
    case False
    with 2 show ?thesis by simp
  next
    case True
    define W where "W = c # takeWhile A cs"
    define rest where "rest = dropWhile A cs"
    define X where "X = re_sub_runs ?N [u] (dropWhile ?N rest)"
    have ih: "strip_trailing (\<lambda>c. c = u) X = py_join [u] (words_by A rest)"
      unfolding X_def rest_def using 2(1)[OF True 2(3)] .
    have Wn: "\<forall>x \<in> set W. \<not> ?N x"
      unfolding W_def using True by (auto dest: set_takeWhileD)
    have Wne: "W \<noteq> []"
      by (simp add: W_def)
    have lastW: "last W \<noteq> u"
    proof
      assume "last W = u"
      moreover have "last W \<in> set W" using Wne by (rule last_in_set)
      ultimately show False using Wn 2(3) by auto
    qed
    have stripW: "strip_trailing (\<lambda>c. c = u) W = W"
      using Wne lastW by (rule strip_trailing_id)
    have "dropWhile ?N (c # cs) = W @ rest"
      using True by (simp add: W_def rest_def)
    then have lhs: "re_sub_runs ?N [u] (dropWhile ?N (c # cs)) = W @ re_sub_runs ?N [u] rest"
      using re_sub_runs_prefix[OF Wn] by simp
    have w: "words_by A (c # cs) = W # words_by A rest"
      using True by (simp add: W_def rest_def)
    show ?thesis
    proof (cases rest)
      case Nil
      then have "re_sub_runs ?N [u] (dropWhile ?N (c # cs)) = W"
        using lhs by simp
      moreover have "py_join [u] (words_by A (c # cs)) = W"
        using w Nil by simp
      ultimately show ?thesis
        using stripW by simp
    next
      case (Cons n r)
      have "rest = [] \<or> \<not> A (hd rest)"
        unfolding rest_def using hd_dropWhile[of A cs] by blast
      with Cons have "?N n"
        by simp
      then have "re_sub_runs ?N [u] rest = [u] @ X"
        using Cons by (simp add: X_def)
      with lhs have l2: "re_sub_runs ?N [u] (dropWhile ?N (c # cs)) = W @ [u] @ X"
        by simp
      have s: "strip_trailing (\<lambda>c. c = u) (W @ [u] @ X)
           = (if strip_trailing (\<lambda>c. c = u) X = [] then W else W @ [u] @ strip_trailing (\<lambda>c. c = u) X)"
        using stripW by (rule strip_trailing_sep)
      have j: "py_join [u] (W # words_by A rest)
           = (if words_by A rest = [] then W else W @ [u] @ py_join [u] (words_by A rest))"
        by (rule py_join_Cons)
      have e: "strip_trailing (\<lambda>c. c = u) X = [] \<longleftrightarrow> words_by A rest = []"
        using ih words_by_join_Nil_iff[of "[u]" A rest] by simp
      show ?thesis
        unfolding l2 w s j e by (simp only: ih)
    qed
  qed
qed

lemma sanitize_core:
  "strip_by (\<lambda>c. c = 95) (re_sub_runs (\<lambda>c. c = 95) [95] (re_sub_runs (\<lambda>c. \<not> is_alnum c) [95] s))
     = py_join [95] (words_by is_alnum s)"
proof -
  have u: "\<not> is_alnum 95"
    by (simp add: is_alnum_def is_digit_def)
  have "re_sub_runs (\<lambda>c. c = 95) [95] (re_sub_runs (\<lambda>c. \<not> is_alnum c) [95] s)
          = re_sub_runs (\<lambda>c. \<not> is_alnum c) [95] s"
    using u by (rule re_sub_runs_twice)
  moreover have "dropWhile (\<lambda>c. c = 95) (re_sub_runs (\<lambda>c. \<not> is_alnum c) [95] s)
          = re_sub_runs (\<lambda>c. \<not> is_alnum c) [95] (dropWhile (\<lambda>c. \<not> is_alnum c) s)"
    using u by (rule dropWhile_re_sub_runs)
  ultimately show ?thesis
    using words_join[of is_alnum 95 s, OF u] by (simp only: strip_by_alt)
qed

lemma py_lower_join:
  "py_lower (py_join sep ws) = py_join (py_lower sep) (map py_lower ws)"
  by (induction sep ws rule: py_join.induct) (simp_all add: py_lower_def)

lemma words_by_none: "\<forall>c \<in> set s. \<not> A c \<Longrightarrow> words_by A s = []"
  by (induction s) simp_all

lemma words_by_skip: "\<forall>c \<in> set a. \<not> A c \<Longrightarrow> words_by A (a @ s) = words_by A s"
  by (induction a) simp_all

lemma words_by_trailing: "\<forall>c \<in> set b. \<not> A c \<Longrightarrow> words_by A (s @ b) = words_by A s"
proof (induction A s rule: words_by.induct)
  case (1 A)
  then show ?case by (simp add: words_by_none)
next
  case (2 A c cs)
  have tb: "takeWhile A b = []" and db: "dropWhile A b = b"
    using 2(3) by (cases b; simp)+
  show ?case
  proof (cases "A c")
    case False
    with 2 show ?thesis by simp
  next
    case True
    show ?thesis
    proof (cases "\<forall>x \<in> set cs. A x")
      case all: True
      have t1: "takeWhile A cs = cs"
        using all by (simp add: takeWhile_eq_all_conv)
      have d1: "dropWhile A cs = []"
        using all by simp
      have t2: "takeWhile A (cs @ b) = cs"
        using all tb by (simp add: takeWhile_append)
      have d2: "dropWhile A (cs @ b) = b"
        using all db by (simp add: dropWhile_append)
      have "words_by A ((c # cs) @ b) = (c # cs) # words_by A b"
        by (simp add: True t2 d2)
      moreover have "words_by A (c # cs) = [c # cs]"
        by (simp add: True t1 d1)
      ultimately show ?thesis
        using 2(3) by (simp add: words_by_none)
    next
      case False
      then have "takeWhile A (cs @ b) = takeWhile A cs" "dropWhile A (cs @ b) = dropWhile A cs @ b"
        by (auto simp: takeWhile_append dropWhile_append)
      with True 2(1)[OF True 2(3)] show ?thesis
        by simp
    qed
  qed
qed

lemma strip_by_decomp:
  "\<exists>a b. s = a @ strip_by P s @ b \<and> (\<forall>c \<in> set a. P c) \<and> (\<forall>c \<in> set b. P c)"
proof -
  let ?t = "dropWhile P s"
  have 1: "s = takeWhile P s @ ?t"
    by simp
  have "?t = rev (takeWhile P (rev ?t) @ dropWhile P (rev ?t))"
    by (simp only: takeWhile_dropWhile_id rev_rev_ident)
  then have 2: "?t = strip_by P s @ rev (takeWhile P (rev ?t))"
    by (simp only: rev_append strip_by_def)
  have "s = takeWhile P s @ strip_by P s @ rev (takeWhile P (rev ?t))"
    using 1 2 by metis
  moreover have "\<forall>c \<in> set (takeWhile P s). P c"
    by (auto dest: set_takeWhileD)
  moreover have "\<forall>c \<in> set (rev (takeWhile P (rev ?t))). P c"
    by (auto dest: set_takeWhileD)
  ultimately show ?thesis
    by blast
qed

lemma replace_cp_append: "replace_cp c r (a @ b) = replace_cp c r a @ replace_cp c r b"
  by (simp add: replace_cp_def)

lemma replace_cp_id: "c \<notin> set s \<Longrightarrow> replace_cp c r s = s"
  by (induction s) (auto simp: replace_cp_def)

lemma isspace_not_alnum: "isspace c \<Longrightarrow> \<not> is_alnum c \<and> c \<noteq> 36"
  by (auto simp: isspace_def is_alnum_def is_digit_def)

lemma words_by_strip:
  "words_by is_alnum (replace_cp 36 r (py_strip col)) = words_by is_alnum (replace_cp 36 r col)"
proof -
  obtain a b where d: "col = a @ py_strip col @ b" "\<forall>c \<in> set a. isspace c" "\<forall>c \<in> set b. isspace c"
    unfolding py_strip_def using strip_by_decomp[of col isspace] by blast
  have a: "replace_cp 36 r a = a" "\<forall>c \<in> set a. \<not> is_alnum c"
    using d(2) isspace_not_alnum by (auto intro: replace_cp_id)
  have b: "replace_cp 36 r b = b" "\<forall>c \<in> set b. \<not> is_alnum c"
    using d(3) isspace_not_alnum by (auto intro: replace_cp_id)
  have "replace_cp 36 r col = a @ replace_cp 36 r (py_strip col) @ b"
    using d(1) a(1) b(1) by (metis replace_cp_append)
  then have "words_by is_alnum (replace_cp 36 r col)
      = words_by is_alnum (a @ (replace_cp 36 r (py_strip col) @ b))"
    by simp
  also have "\<dots> = words_by is_alnum (replace_cp 36 r (py_strip col) @ b)"
    using a(2) by (rule words_by_skip)
  also have "\<dots> = words_by is_alnum (replace_cp 36 r (py_strip col))"
    using b(2) by (rule words_by_trailing)
  finally show ?thesis by simp
qed

lemma sanitize_eq:
  "sanitize col =
     (case snake_case (replace_cp 36 (str ''usd'') col) of
        [] \<Rightarrow> str ''col''
      | c # cs \<Rightarrow> if is_digit c then str ''c_'' @ c # cs else c # cs)"
proof -
  have u: "str ''_'' = [95]" and l: "py_lower [95] = [95]"
    by (simp_all add: str_def py_lower_def lower_cp_def)
  have core: "py_lower (strip_by (\<lambda>c. c = 95)
        (re_sub_runs (\<lambda>c. c = 95) (str ''_'')
          (re_sub_runs (\<lambda>c. \<not> is_alnum c) (str ''_'') (replace_cp 36 (str ''usd'') (py_strip col)))))
      = snake_case (replace_cp 36 (str ''usd'') col)"
    unfolding u sanitize_core py_lower_join l snake_case_def words_by_strip by (rule refl)
  have col: "str ''col'' = [99, 111, 108]"
    by (simp add: str_def)
  show ?thesis
    unfolding sanitize_def Let_def core
    by (cases "snake_case (replace_cp 36 (str ''usd'') col)") (simp_all add: col is_digit_def)
qed

lemma join_chars:
  assumes "\<forall>w \<in> set W. w \<noteq> [] \<and> (\<forall>c \<in> set w. L c)"
  shows "(\<forall>c \<in> set (py_join [u] W). L c \<or> c = u)
       \<and> (W \<noteq> [] \<longrightarrow> py_join [u] W \<noteq> [] \<and> L (hd (py_join [u] W)) \<and> L (last (py_join [u] W)))"
  using assms
proof (induction "[u]" W rule: py_join.induct)
  case 1
  then show ?case by simp
next
  case (2 x)
  then show ?case by simp
next
  case (3 x y ys)
  then have x: "x \<noteq> []" "\<forall>c \<in> set x. L c"
    and ih: "(\<forall>c \<in> set (py_join [u] (y # ys)). L c \<or> c = u)"
      "py_join [u] (y # ys) \<noteq> []" "L (last (py_join [u] (y # ys)))"
    by auto
  have "L (hd x)"
    using x by (cases x) auto
  then show ?case
    using x ih by (auto simp: hd_append)
qed

lemma lowered_alnum: "is_alnum c \<Longrightarrow> is_digit (lower_cp c) \<or> (97 \<le> lower_cp c \<and> lower_cp c \<le> 122)"
  by (auto simp: is_alnum_def is_digit_def lower_cp_def)

lemma snake_case_chars:
  "(\<forall>c \<in> set (snake_case s). (is_digit c \<or> (97 \<le> c \<and> c \<le> 122)) \<or> c = 95)
   \<and> (snake_case s \<noteq> [] \<longrightarrow>
        (is_digit (hd (snake_case s)) \<or> (97 \<le> hd (snake_case s) \<and> hd (snake_case s) \<le> 122))
        \<and> (is_digit (last (snake_case s)) \<or> (97 \<le> last (snake_case s) \<and> last (snake_case s) \<le> 122)))"
proof -
  let ?L = "\<lambda>c. is_digit c \<or> (97 \<le> c \<and> c \<le> 122)"
  let ?W = "map py_lower (words_by is_alnum s)"
  have w: "\<forall>w \<in> set ?W. w \<noteq> [] \<and> (\<forall>c \<in> set w. ?L c)"
  proof
    fix w
    assume "w \<in> set ?W"
    then obtain v where v: "v \<in> set (words_by is_alnum s)" "w = py_lower v"
      by auto
    then have "v \<noteq> []" "\<forall>c \<in> set v. is_alnum c"
      using words_by_nonempty by blast+
    then show "w \<noteq> [] \<and> (\<forall>c \<in> set w. ?L c)"
      using v(2) lowered_alnum by (auto simp: py_lower_def)
  qed
  have j: "snake_case s = py_join [95] ?W"
    by (simp add: snake_case_def str_def)
  have "?W = [] \<Longrightarrow> snake_case s = []"
    using j by simp
  then show ?thesis
    unfolding j using join_chars[OF w, of 95] by blast
qed

lemma is_identifier_col: "is_identifier (str ''col'')"
  by (simp add: is_identifier_def str_def is_digit_def)

lemma is_identifier_sanitize: "is_identifier (sanitize col)"
proof (cases "snake_case (replace_cp 36 (str ''usd'') col)")
  case Nil
  then show ?thesis
    by (simp add: sanitize_eq is_identifier_col)
next
  case (Cons c cs)
  let ?L = "\<lambda>c. is_digit c \<or> (97 \<le> c \<and> c \<le> 122)"
  have a: "\<forall>x \<in> set (c # cs). ?L x \<or> x = 95" and h: "?L c" and l: "?L (last (c # cs))"
    using snake_case_chars[of "replace_cp 36 (str ''usd'') col"] Cons by auto
  have n95: "?L x \<Longrightarrow> x \<noteq> 95" for x
    by (auto simp: is_digit_def)
  have c95: "c \<noteq> 95" and l95: "last (c # cs) \<noteq> 95"
    using h l n95 by blast+
  show ?thesis
  proof (cases "is_digit c")
    case True
    then have s: "sanitize col = 99 # 95 # c # cs"
      using Cons by (simp add: sanitize_eq str_def)
    show ?thesis
      unfolding s is_identifier_def using a l95 by (simp add: is_digit_def list_all_iff)
  next
    case False
    then have s: "sanitize col = c # cs"
      using Cons by (simp add: sanitize_eq)
    show ?thesis
      unfolding s is_identifier_def using a c95 l95 False by (simp add: list_all_iff)
  qed
qed

text \<open>
  C9, as the specification states it: every run of characters that are not alphanumeric
  should become one underscore. The sanitizer first replaces every dollar sign by
  \<^verbatim>\<open>usd\<close>: the dollar sign of \<^verbatim>\<open>a$b\<close> is such a run, and the result has no underscore.
\<close>

theorem sanitize_dollar_counterexample:
  "\<not> is_alnum 36 \<and> str ''a$b'' = [97, 36, 98]
   \<and> sanitize (str ''a$b'') = str ''ausdb''
   \<and> 95 \<notin> set (sanitize (str ''a$b''))"
  by (simp add: sanitize_def str_ops char_defs)

text \<open>
  C9, amended: for every header the sanitizer returns an identifier of lower-case ASCII
  letters, digits and underscores that is not empty and has no digit and no underscore
  at its start and no underscore at its end. After every dollar sign has been replaced
  by \<^verbatim>\<open>usd\<close>, the maximal runs of alphanumeric characters are put in lower case and
  joined by single underscores, so that every run of other characters between two of
  them becomes one underscore and the runs at the two ends disappear; an empty result
  becomes \<^verbatim>\<open>col\<close>, and a result that starts with a digit gets the prefix \<^verbatim>\<open>c_\<close>.
\<close>

theorem sanitize_snake_case:
  "sanitize col =
     (case snake_case (replace_cp 36 (str ''usd'') col) of
        [] \<Rightarrow> str ''col''
      | c # cs \<Rightarrow> if is_digit c then str ''c_'' @ c # cs else c # cs)
   \<and> is_identifier (sanitize col)"
  using sanitize_eq is_identifier_sanitize by (rule conjI)

section \<open>The round trip of the cache through its file\<close>

subsection \<open>Reading what was written\<close>

lemma skip_ws_Cons: "\<not> is_ws c \<Longrightarrow> skip_ws (c # r) = c # r"
  by (simp add: skip_ws_def)

lemma skip_ws_space: "skip_ws (32 # r) = skip_ws r"
  by (simp add: skip_ws_def is_ws_def)

lemma skip_ws_newline: "skip_ws (10 # r) = skip_ws r"
  by (simp add: skip_ws_def is_ws_def)

lemma hex_value_digit: "d < 16 \<Longrightarrow> hex_value (hex_digit d) = Some d"
  by (simp add: hex_value_def hex_digit_def)

lemma hex4_encode:
  assumes "c < 32"
  shows "hex4 (48 # 48 # hex_digit (c div 16) # hex_digit (c mod 16) # t) = Some c"
proof -
  have d: "c div 16 < 16" using assms by simp
  have m: "c mod 16 < 16" by simp
  have z: "hex_value 48 = Some 0" by (simp add: hex_value_def)
  show ?thesis
    by (simp add: hex4_def z hex_value_digit[OF d] hex_value_digit[OF m])
qed

lemma scan_encode_char: "scan_string (encode_char c @ t) = consr c (scan_string t)"
proof -
  consider "c = 34" | "c = 92" | "c = 10" | "c = 13" | "c = 9" | "c = 8" | "c = 12"
    | "c < 32" "c \<notin> {34, 92, 10, 13, 9, 8, 12}" | "32 \<le> c" "c \<noteq> 34" "c \<noteq> 92"
    by fastforce
  then show ?thesis
  proof cases
    case 8
    then show ?thesis
      by (simp add: encode_char_def hex4_encode)
  next
    case 9
    then show ?thesis
      by (simp add: encode_char_def)
  qed (simp_all add: encode_char_def unescape_def)
qed

lemma scan_string_encode:
  "scan_string (concat (map encode_char s) @ 34 # rest) = Inr (s, rest)"
  by (induction s) (simp_all add: scan_encode_char consr_def)


lemma newline_indent_0: "newline_indent 0 = [10]"
  by (simp add: newline_indent_def)

lemma newline_indent_1: "newline_indent (Suc 0) = [10, 32, 32]"
  by (simp add: newline_indent_def numeral_2_eq_2)

lemma newline_indent_2: "newline_indent (Suc (Suc 0)) = [10, 32, 32, 32, 32]"
  by (simp add: newline_indent_def numeral_eq_Suc)

lemmas newline_indent_simps = newline_indent_0 newline_indent_1 newline_indent_2

lemma encode_basestring_Cons:
  "encode_basestring k @ t = 34 # concat (map encode_char k) @ 34 # t"
  by (simp add: encode_basestring_def)

lemma parse_value_dict:
  "parse_value number (Suc n) (123 # 10 # 32 # 32 # r) =
     (case skip_ws r of
        [] \<Rightarrow> Inl JSONDecodeError
      | d # r' \<Rightarrow>
          if d = 125 then Inr (JObj [], r')
          else if d = 34 then parse_members number n [] r'
          else Inl JSONDecodeError)"
  by (simp add: skip_ws_space skip_ws_newline)

lemma parse_value_null: "parse_value number (Suc n) (str ''null'' @ rest) = Inr (JNull, rest)"
  by (simp add: str_def)

lemma parse_value_number:
  assumes f: "float_round_trip repr number x" and c: "\<not> is_num_char c"
  shows "parse_value number (Suc n) (repr x @ c # rest) = Inr (JNum x, c # rest)"
proof -
  from f have ne: "repr x \<noteq> []" and all: "\<forall>a \<in> set (repr x). is_num_char a"
    and num: "number (repr x) = Some x"
    by (simp_all add: float_round_trip_def list_all_iff)
  from ne obtain a as where r: "repr x = a # as" by (cases "repr x") auto
  with all have a: "is_num_char a" by simp
  have tw: "takeWhile is_num_char (repr x @ c # rest) = repr x"
    using all c by (simp add: takeWhile_append2)
  have dw: "dropWhile is_num_char (repr x @ c # rest) = c # rest"
    using all c by (simp add: dropWhile_append2)
  have h: "a \<noteq> 34" "a \<noteq> 123" "a \<noteq> 91" "a \<noteq> 110" "a \<noteq> 116" "a \<noteq> 102"
    using a by (auto simp: is_num_char_def is_digit_def)
  have "parse_value number (Suc n) ((a # as) @ c # rest) = Inr (JNum x, c # rest)"
    using h tw dw num unfolding r by (simp add: str_def)
  then show ?thesis by (simp only: r)
qed

lemma skip_ws_number:
  assumes "float_round_trip repr number x"
  shows "skip_ws (repr x @ t) = repr x @ t"
proof -
  from assms obtain a as where r: "repr x = a # as" and a: "is_num_char a"
    by (cases "repr x") (auto simp: float_round_trip_def)
  from a have "\<not> is_ws a" by (auto simp: is_num_char_def is_digit_def is_ws_def)
  then show ?thesis by (simp add: r skip_ws_def)
qed

lemma parse_value_coord:
  assumes a: "float_round_trip repr number (fst c)" and b: "float_round_trip repr number (snd c)"
  shows "parse_value number (Suc (Suc (Suc (Suc n)))) (dumps_coord repr c @ rest)
           = Inr (py_coord c, rest)"
proof -
  have n44: "\<not> is_num_char 44" and n10: "\<not> is_num_char 10"
    by (simp_all add: is_num_char_def is_digit_def)
  have lat: "\<And>n r. parse_value number (Suc n) (repr (fst c) @ 44 # r) = Inr (JNum (fst c), 44 # r)"
    by (rule parse_value_number[OF a n44])
  have lon: "\<And>n r. parse_value number (Suc n) (repr (snd c) @ 10 # r) = Inr (JNum (snd c), 10 # r)"
    by (rule parse_value_number[OF b n10])
  have s1: "scan_string (str ''lat'' @ 34 # t) = Inr (str ''lat'', t)" for t
    using scan_string_encode[of "str ''lat''" t] by (simp add: str_def encode_char_def)
  have s2: "scan_string (str ''lon'' @ 34 # t) = Inr (str ''lon'', t)" for t
    using scan_string_encode[of "str ''lon''" t] by (simp add: str_def encode_char_def)
  have e1: "encode_basestring (str ''lat'') = 34 # str ''lat'' @ [34]"
    by (simp add: encode_basestring_def str_def encode_char_def)
  have e2: "encode_basestring (str ''lon'') = 34 # str ''lon'' @ [34]"
    by (simp add: encode_basestring_def str_def encode_char_def)
  have txt_eq: "dumps_coord repr c @ rest =
      123 # 10 # 32 # 32 # 32 # 32 # 34 # str ''lat'' @ 34 # 58 # 32 # repr (fst c) @ 44 # 10 # 32 # 32 # 32 # 32
        # 34 # str ''lon'' @ 34 # 58 # 32 # repr (snd c) @ 10 # 32 # 32 # 125 # rest"
    unfolding dumps_coord_def dumps_dict_def dumps_item_def e1 e2
    by (simp add: str_def newline_indent_simps)
  have ne: "str ''lat'' \<noteq> str ''lon''" by (simp add: str_def)
  show ?thesis
    unfolding txt_eq
    by (simp add: parse_value_dict skip_ws_space skip_ws_newline skip_ws_Cons is_ws_def s1 s2
        lat lon skip_ws_number[OF a] skip_ws_number[OF b] py_coord_def ne del: parse_value.simps)
qed

lemma parse_value_value:
  assumes "case v of None \<Rightarrow> True
           | Some c \<Rightarrow> float_round_trip repr number (fst c) \<and> float_round_trip repr number (snd c)"
    and "4 \<le> n"
  shows "parse_value number n (dumps_value repr v @ rest) = Inr (py_value v, rest)"
proof -
  from \<open>4 \<le> n\<close> have "n = Suc (Suc (Suc (Suc (n - 4))))" by simp
  then obtain m where n: "n = Suc (Suc (Suc (Suc m)))" ..
  show ?thesis
  proof (cases v)
    case None
    then show ?thesis
      unfolding n by (simp add: dumps_value_def py_value_def parse_value_null del: parse_value.simps)
  next
    case (Some c)
    with assms(1) show ?thesis
      unfolding n by (simp add: dumps_value_def py_value_def parse_value_coord del: parse_value.simps)
  qed
qed


lemma parse_members_items:
  assumes "es \<noteq> []" and "distinct (map fst es)" and "set (map fst es) \<inter> set (map fst acc) = {}"
    and "floats_round_trip repr number es" and "5 * length es \<le> n"
  shows "parse_members number n acc
           (tl (py_join [44, 10, 32, 32] (map (\<lambda>(q, v). dumps_item q (dumps_value repr v)) es))
            @ 10 # 125 # rest)
         = Inr (JObj (acc @ map (\<lambda>(q, v). (q, py_value v)) es), rest)"
  using assms
proof (induction es arbitrary: n acc)
  case Nil
  then show ?case by simp
next
  case (Cons e es)
  obtain k v where e: "e = (k, v)" by (cases e)
  let ?item = "\<lambda>(q, v). dumps_item q (dumps_value repr v)"
  define X where "X = (if es = [] then [] else [44, 10, 32, 32] @ py_join [44, 10, 32, 32] (map ?item es))
                        @ 10 # 125 # rest"
  from Cons.prems(5) obtain m where n: "n = Suc m" and m4: "4 \<le> m" and m: "5 * length es \<le> m"
    by (cases n) auto
  have fv: "case v of None \<Rightarrow> True
            | Some c \<Rightarrow> float_round_trip repr number (fst c) \<and> float_round_trip repr number (snd c)"
    using Cons.prems(4) by (simp add: floats_round_trip_def e)
  have val: "parse_value number m (dumps_value repr v @ X) = Inr (py_value v, X)"
    by (rule parse_value_value[OF fv m4])
  have nw: "skip_ws (dumps_value repr v @ X) = dumps_value repr v @ X"
  proof (cases v)
    case None
    then show ?thesis by (simp add: dumps_value_def str_def skip_ws_def is_ws_def)
  next
    case (Some c)
    then show ?thesis
      by (simp add: dumps_value_def dumps_coord_def dumps_dict_def str_def skip_ws_def is_ws_def)
  qed
  have kacc: "dict_get acc k = None"
    using Cons.prems(3) by (auto simp: dict_get_None_iff e)
  have set: "setitem acc k (py_value v) = acc @ [(k, py_value v)]"
    by (rule setitem_new[OF kacc])
  have shape: "tl (py_join [44, 10, 32, 32] (map ?item (e # es))) @ 10 # 125 # rest
             = concat (map encode_char k) @ 34 # 58 # 32 # dumps_value repr v @ X"
    by (simp add: py_join_Cons e dumps_item_def encode_basestring_def str_def X_def)
  have step: "parse_members number (Suc m) acc
                (concat (map encode_char k) @ 34 # 58 # 32 # dumps_value repr v @ X)
              = (case skip_ws X of
                   [] \<Rightarrow> Inl JSONDecodeError
                 | d # r4 \<Rightarrow>
                     if d = 125 then Inr (JObj (setitem acc k (py_value v)), r4)
                     else if d = 44 then
                       (case skip_ws r4 of
                          [] \<Rightarrow> Inl JSONDecodeError
                        | q # r5 \<Rightarrow>
                            if q = 34 then parse_members number m (setitem acc k (py_value v)) r5
                            else Inl JSONDecodeError)
                     else Inl JSONDecodeError)"
    by (simp add: scan_string_encode skip_ws_Cons is_ws_def skip_ws_space nw val
        del: parse_value.simps)
  show ?case
  proof (cases "es = []")
    case True
    then have X: "X = 10 # 125 # rest" by (simp add: X_def)
    have "parse_members number n acc
            (tl (py_join [44, 10, 32, 32] (map ?item (e # es))) @ 10 # 125 # rest)
          = parse_members number (Suc m) acc
              (concat (map encode_char k) @ 34 # 58 # 32 # dumps_value repr v @ X)"
      by (simp only: shape n)
    also have "\<dots> = Inr (JObj (acc @ [(k, py_value v)]), rest)"
      by (subst step) (simp add: X skip_ws_newline skip_ws_Cons is_ws_def set)
    finally show ?thesis using True by (simp add: e)
  next
    case False
    then obtain e' es' where es: "es = e' # es'" by (cases es) auto
    obtain k' v' where e': "e' = (k', v')" by (cases e')
    have hd: "py_join [44, 10, 32, 32] (map ?item es)
              = 34 # tl (py_join [44, 10, 32, 32] (map ?item es))"
      by (simp add: es e' py_join_Cons dumps_item_def encode_basestring_def)
    have X: "X = 44 # 10 # 32 # 32 # 34 # tl (py_join [44, 10, 32, 32] (map ?item es)) @ 10 # 125 # rest"
      using False hd by (simp add: X_def)
    have d: "distinct (map fst es)" using Cons.prems(2) by simp
    have i: "set (map fst es) \<inter> set (map fst (acc @ [(k, py_value v)])) = {}"
      using Cons.prems(2,3) by (auto simp: e)
    have f: "floats_round_trip repr number es"
      using Cons.prems(4) by (simp add: floats_round_trip_def)
    have ih: "parse_members number m (acc @ [(k, py_value v)])
                (tl (py_join [44, 10, 32, 32] (map ?item es)) @ 10 # 125 # rest)
              = Inr (JObj ((acc @ [(k, py_value v)]) @ map (\<lambda>(q, v). (q, py_value v)) es), rest)"
      by (rule Cons.IH[OF False d i f m])
    have "parse_members number n acc
            (tl (py_join [44, 10, 32, 32] (map ?item (e # es))) @ 10 # 125 # rest)
          = parse_members number (Suc m) acc
              (concat (map encode_char k) @ 34 # 58 # 32 # dumps_value repr v @ X)"
      by (simp only: shape n)
    also have "\<dots> = parse_members number m (acc @ [(k, py_value v)])
                (tl (py_join [44, 10, 32, 32] (map ?item es)) @ 10 # 125 # rest)"
      by (subst step) (simp add: X skip_ws_newline skip_ws_space skip_ws_Cons is_ws_def set)
    finally show ?thesis by (simp add: ih e)
  qed
qed

lemma length_py_join:
  "\<forall>x \<in> set xs. k \<le> length x \<Longrightarrow> k * length xs \<le> length (py_join sep xs)"
proof (induction xs)
  case Nil
  then show ?case by simp
next
  case (Cons x xs)
  then have "k \<le> length x" and "k * length xs \<le> length (py_join sep xs)" by simp_all
  then show ?case by (simp add: py_join_Cons)
qed

lemma dumps_value_nonempty: "dumps_value repr v \<noteq> []"
  by (cases v) (simp_all add: dumps_value_def dumps_coord_def dumps_dict_def str_def)

lemma length_json_dumps: "5 * length cache \<le> length (json_dumps repr cache)"
proof -
  let ?items = "map (\<lambda>(q, v). dumps_item q (dumps_value repr v)) cache"
  have "\<forall>x \<in> set ?items. 5 \<le> length x"
  proof
    fix x assume "x \<in> set ?items"
    then obtain q v where "x = dumps_item q (dumps_value repr v)" by auto
    moreover have "1 \<le> length (dumps_value repr v)"
      using dumps_value_nonempty[of repr v] by (cases "dumps_value repr v") simp_all
    ultimately show "5 \<le> length x"
      by (simp add: dumps_item_def encode_basestring_def str_def)
  qed
  then have "5 * length ?items \<le> length (py_join [44, 10, 32, 32] ?items)"
    by (rule length_py_join)
  then show ?thesis
    by (simp add: json_dumps_def dumps_dict_def newline_indent_simps str_def)
qed

lemma json_loads_dumps:
  assumes "distinct (map fst cache)" and "floats_round_trip repr number cache"
  shows "json_loads number (json_dumps repr cache) = Inr (py_object cache)"
proof (cases "cache = []")
  case True
  then show ?thesis
    by (simp add: json_loads_def json_dumps_def dumps_dict_def py_object_def str_def
        skip_ws_def is_ws_def)
next
  case False
  let ?items = "map (\<lambda>(q, v). dumps_item q (dumps_value repr v)) cache"
  let ?n = "length (json_dumps repr cache)"
  from False obtain e es where c: "cache = e # es" by (cases cache) auto
  obtain k v where e: "e = (k, v)" by (cases e)
  have hd: "py_join [44, 10, 32, 32] ?items = 34 # tl (py_join [44, 10, 32, 32] ?items)"
    by (simp add: c e py_join_Cons dumps_item_def encode_basestring_def)
  have shape: "json_dumps repr cache
             = 123 # 10 # 32 # 32 # 34 # tl (py_join [44, 10, 32, 32] ?items) @ 10 # 125 # []"
    using False hd by (simp add: json_dumps_def dumps_dict_def newline_indent_simps str_def)
  have m: "parse_members number ?n []
             (tl (py_join [44, 10, 32, 32] ?items) @ 10 # 125 # [])
           = Inr (JObj ([] @ map (\<lambda>(q, v). (q, py_value v)) cache), [])"
    by (rule parse_members_items[OF False assms(1) _ assms(2) length_json_dumps]) simp
  have "parse_value number (Suc ?n) (skip_ws (json_dumps repr cache)) = Inr (py_object cache, [])"
    using m unfolding shape
    by (simp add: skip_ws_Cons is_ws_def parse_value_dict py_object_def del: parse_value.simps)
  then show ?thesis
    by (simp add: json_loads_def skip_ws_def)
qed


lemma encodable_append: "encodable (a @ b) \<longleftrightarrow> encodable a \<and> encodable b"
  by (simp add: encodable_def)

lemma encodable_Cons: "encodable (c # s) \<longleftrightarrow> \<not> is_surrogate c \<and> encodable s"
  by (simp add: encodable_def)

lemma encodable_Nil: "encodable []"
  by (simp add: encodable_def)

lemma encodable_str: "encodable (str cs)"
proof -
  have lt: "(of_char c :: nat) < 256" for c :: char
  proof -
    have "(of_char c :: nat) mod 256 < 256" by simp
    then show ?thesis by (simp only: of_char_mod_256)
  qed
  have "\<not> is_surrogate (of_char c)" for c :: char
    unfolding is_surrogate_def using lt[of c] by linarith
  then show ?thesis by (simp add: encodable_def str_def list_all_iff)
qed

lemma encodable_encode_char:
  assumes "\<not> is_surrogate c"
  shows "encodable (encode_char c)"
proof (cases "c < 32")
  case True
  have h: "hex_digit d < 128" if "d < 16" for d
    using that by (simp add: hex_digit_def)
  have "c div 16 < 16" using True by simp
  then have "hex_digit (c div 16) < 128" by (rule h)
  moreover have "hex_digit (c mod 16) < 128" by (rule h) simp
  ultimately show ?thesis
    using True by (simp add: encode_char_def encodable_def is_surrogate_def)
next
  case False
  then show ?thesis
    using assms by (simp add: encode_char_def encodable_def is_surrogate_def)
qed

lemma encodable_encode: "encodable s \<Longrightarrow> encodable (concat (map encode_char s))"
  by (induction s) (simp_all add: encodable_append encodable_Cons encodable_encode_char encodable_Nil)

lemma encodable_basestring: "encodable s \<Longrightarrow> encodable (encode_basestring s)"
  by (simp add: encode_basestring_def encodable_append encodable_Cons encodable_encode
      encodable_Nil is_surrogate_def)

lemma encodable_py_join:
  "encodable sep \<Longrightarrow> \<forall>x \<in> set xs. encodable x \<Longrightarrow> encodable (py_join sep xs)"
  by (induction xs) (simp_all add: py_join_Cons encodable_append encodable_Nil)

lemma encodable_indent: "encodable (newline_indent n)"
  by (simp add: newline_indent_def encodable_def is_surrogate_def list_all_iff)

lemma encodable_dumps_dict:
  "\<forall>x \<in> set items. encodable x \<Longrightarrow> encodable (dumps_dict level items)"
  by (simp add: dumps_dict_def encodable_append encodable_str encodable_indent encodable_py_join)

lemma encodable_dumps_item: "encodable k \<Longrightarrow> encodable t \<Longrightarrow> encodable (dumps_item k t)"
  by (simp add: dumps_item_def encodable_append encodable_str encodable_basestring)

lemma encodable_number: "float_round_trip repr number x \<Longrightarrow> encodable (repr x)"
  by (auto simp: float_round_trip_def encodable_def list_all_iff is_num_char_def is_digit_def
      is_surrogate_def)

lemma encodable_dumps_value:
  assumes "case v of None \<Rightarrow> True
           | Some c \<Rightarrow> float_round_trip repr number (fst c) \<and> float_round_trip repr number (snd c)"
  shows "encodable (dumps_value repr v)"
proof (cases v)
  case None
  then show ?thesis by (simp add: dumps_value_def encodable_str)
next
  case (Some c)
  with assms have "encodable (repr (fst c))" and "encodable (repr (snd c))"
    by (auto intro: encodable_number)
  then show ?thesis
    by (simp add: Some dumps_value_def dumps_coord_def encodable_dumps_dict encodable_dumps_item
        encodable_str)
qed

lemma encodable_json_dumps:
  assumes "keys_encodable cache" and "floats_round_trip repr number cache"
  shows "encodable (json_dumps repr cache)"
  unfolding json_dumps_def
proof (rule encodable_dumps_dict, rule ballI)
  fix x assume "x \<in> set (map (\<lambda>(q, v). dumps_item q (dumps_value repr v)) cache)"
  then obtain q v where m: "(q, v) \<in> set cache" and x: "x = dumps_item q (dumps_value repr v)"
    by auto
  from m assms(1) have k: "encodable q" by (auto simp: keys_encodable_def list_all_iff)
  from m assms(2) have "case v of None \<Rightarrow> True
      | Some c \<Rightarrow> float_round_trip repr number (fst c) \<and> float_round_trip repr number (snd c)"
    by (auto simp: floats_round_trip_def list_all_iff)
  then have "encodable (dumps_value repr v)" by (rule encodable_dumps_value)
  with k show "encodable x" unfolding x by (rule encodable_dumps_item)
qed

lemma set_py_join: "x \<in> set xs \<Longrightarrow> set x \<subseteq> set (py_join sep xs)"
  by (induction xs) (auto simp: py_join_Cons)

lemma surrogate_encode_char: "is_surrogate c \<Longrightarrow> encode_char c = [c]"
  by (simp add: encode_char_def is_surrogate_def)

lemma surrogate_kept:
  assumes "c \<in> set k" and "is_surrogate c"
  shows "c \<in> set (concat (map encode_char k))"
  using assms by (induction k) (auto simp: surrogate_encode_char)

lemma not_encodable_json_dumps:
  assumes "\<not> keys_encodable cache"
  shows "\<not> encodable (json_dumps repr cache)"
proof -
  from assms obtain q v c where m: "(q, v) \<in> set cache" and c: "c \<in> set q" and s: "is_surrogate c"
    by (auto simp: keys_encodable_def encodable_def list_all_iff)
  let ?items = "map (\<lambda>(q, v). dumps_item q (dumps_value repr v)) cache"
  from m have ne: "?items \<noteq> []" by auto
  have "c \<in> set (dumps_item q (dumps_value repr v))"
    using surrogate_kept[OF c s] by (simp add: dumps_item_def encode_basestring_def)
  moreover have "dumps_item q (dumps_value repr v) \<in> set ?items"
    using m by force
  ultimately have "c \<in> set (py_join (str '','' @ newline_indent (0 + 1)) ?items)"
    using set_py_join by blast
  then have "c \<in> set (json_dumps repr cache)"
    using ne by (simp add: json_dumps_def dumps_dict_def)
  with s show ?thesis by (auto simp: encodable_def list_all_iff)
qed

subsection \<open>Saving, then loading\<close>

text \<open>
  C8, as the specification states it: for every cache in memory, loading after persisting
  gives the cache back. A query is a Python string, and a Python string may hold a
  surrogate code point (\<^verbatim>\<open>json.loads\<close> gives such a key for the escape \<^verbatim>\<open>\ud800\<close> in a cache
  file). For the cache \<^verbatim>\<open>{'\ud800': None}\<close> the text is refused by the UTF-8 codec:
  \<^verbatim>\<open>save_cache\<close> raises \<^verbatim>\<open>UnicodeEncodeError\<close> and leaves the file empty, and \<^verbatim>\<open>load_cache\<close>
  then raises \<^verbatim>\<open>JSONDecodeError\<close> instead of giving the cache.
\<close>

theorem surrogate_key_counterexample:
  "fst (save_cache example_repr [([55296], None)] no_file) = Some UnicodeEncodeError
   \<and> snd (save_cache example_repr [([55296], None)] no_file) = \<lparr>cache_file = Some []\<rparr>
   \<and> load_cache example_number (snd (save_cache example_repr [([55296], None)] no_file))
       = Inl JSONDecodeError"
  by (simp add: save_cache_def write_text_def load_cache_def json_loads_def skip_ws_def
      json_dumps_def dumps_dict_def dumps_item_def dumps_value_def encode_basestring_def
      encode_char_def newline_indent_def str_def encodable_def is_surrogate_def no_file_def)

text \<open>
  C8, amended: for every cache in memory (a dictionary, so with distinct keys) whose
  coordinates are floats that \<^verbatim>\<open>repr\<close> writes as number literals with the value of the float,
  and whatever the file held before: when no key has a surrogate code point, \<^verbatim>\<open>save_cache\<close>
  raises nothing and \<^verbatim>\<open>load_cache\<close> then gives a dictionary with the same keys, in the same
  order, and the same values; when a key has one, \<^verbatim>\<open>save_cache\<close> raises \<^verbatim>\<open>UnicodeEncodeError\<close>
  and \<^verbatim>\<open>load_cache\<close> then raises \<^verbatim>\<open>JSONDecodeError\<close>.
\<close>

theorem cache_round_trip:
  assumes "distinct (map fst cache)" and "floats_round_trip repr number cache"
  shows "if keys_encodable cache
         then fst (save_cache repr cache fs) = None
              \<and> load_cache number (snd (save_cache repr cache fs)) = Inr (py_object cache)
         else fst (save_cache repr cache fs) = Some UnicodeEncodeError
              \<and> load_cache number (snd (save_cache repr cache fs)) = Inl JSONDecodeError"
proof (cases "keys_encodable cache")
  case True
  then have "encodable (json_dumps repr cache)"
    using assms(2) by (rule encodable_json_dumps)
  then show ?thesis
    using True json_loads_dumps[OF assms]
    by (simp add: save_cache_def write_text_def load_cache_def)
next
  case False
  then have "\<not> encodable (json_dumps repr cache)"
    by (rule not_encodable_json_dumps)
  then show ?thesis
    using False
    by (simp add: save_cache_def write_text_def load_cache_def json_loads_def skip_ws_def)
qed

theorem cache_round_trip_witness:
  "distinct (map fst example_cache) \<and> floats_round_trip example_repr example_number example_cache
   \<and> keys_encodable example_cache
   \<and> fst (save_cache example_repr example_cache no_file) = None
   \<and> load_cache example_number (snd (save_cache example_repr example_cache no_file))
       = Inr (py_object example_cache)"
proof -
  have d: "distinct (map fst example_cache)"
    by (simp add: example_cache_def str_def)
  have f: "floats_round_trip example_repr example_number example_cache"
    by (simp add: floats_round_trip_def float_round_trip_def example_cache_def example_repr_def
        example_number_def str_def is_num_char_def is_digit_def)
  have k: "keys_encodable example_cache"
    by (simp add: keys_encodable_def example_cache_def str_def encodable_def is_surrogate_def)
  from cache_round_trip[OF d f, of no_file] k d f show ?thesis by simp
qed


section \<open>Idempotence of the normalizations\<close>

subsection \<open>Whitespace and hyphens\<close>















subsection \<open>The squeezed text from right to left\<close>








subsection \<open>Words and the rewriting of \<^verbatim>\<open>and\<close>\<close>








subsection \<open>The normalization without the final strip\<close>




















subsection \<open>The final strip\<close>
















subsection \<open>The characters of a normalized text\<close>
















subsection \<open>The query normalizer\<close>












subsection \<open>Idempotence\<close>





end
